theory Spec2Isabelle
  imports Main "HOL-Library.Word"
begin

unbundle bit_operations_syntax

chapter \<open>VaultDrop: signed URLs, document repository, extraction worker, upload intake\<close>

text \<open>
  A shallow embedding of the Go sources of VaultDrop: the HMAC signer
  (package \<open>signing\<close>), the document repository (package \<open>repository\<close>), the
  extraction worker (\<open>internal/worker/processor.go\<close>) and the upload handler
  (\<open>internal/api/server.go\<close>).  Go strings are \<^typ>\<open>string\<close>, byte slices are
  lists of 8-bit words, \<open>int64\<close> is a 64-bit word read through \<^const>\<open>sint\<close>.
  A Go \<open>error\<close> is a message: \<open>None\<close> is \<open>nil\<close>.  What the sources reach outside
  the process (PostgreSQL, the object store, the queue broker, the temporary
  directory, the clock, the random id) is explicit state and an explicit
  environment of faults.
\<close>

section \<open>Definitions\<close>

type_synonym byte = "8 word"
type_synonym int64 = "64 word"
type_synonym error = "string option"

subsection \<open>Package signing, and the library functions it calls\<close>

text \<open>The conversion \<open>[]byte(s)\<close> of a Go string.\<close>

definition bytes_of :: "string \<Rightarrow> byte list" where
  "bytes_of s = map (\<lambda>c. word_of_nat (of_char c)) s"

text \<open>\<open>hex.EncodeToString\<close>: two lower-case digits per byte, high nibble first.\<close>

definition hextable :: string where
  "hextable = ''0123456789abcdef''"

fun EncodeToString :: "byte list \<Rightarrow> string" where
  "EncodeToString [] = []"
| "EncodeToString (v # src) =
     hextable ! unat (drop_bit 4 v) # hextable ! unat (v AND 0x0f) # EncodeToString src"

text \<open>
  The verb \<open>%d\<close> of \<open>fmt.Sprintf\<close> on an \<open>int64\<close>, which is
  \<open>strconv.FormatInt(i, 10)\<close>: a minus sign for a negative number, then the
  decimal digits of the magnitude without leading zeros.
\<close>

definition digit_char :: "nat \<Rightarrow> char" where
  "digit_char d = ''0123456789'' ! d"

function formatBits :: "nat \<Rightarrow> string" where
  "formatBits u =
     (if u < 10 then [digit_char u] else formatBits (u div 10) @ [digit_char (u mod 10)])"
  by pat_completeness auto
termination
  by (relation "measure id") auto

declare formatBits.simps [simp del]

definition FormatInt :: "int64 \<Rightarrow> string" where
  "FormatInt i =
     (if sint i < 0 then CHR ''-'' # formatBits (nat (- sint i))
      else formatBits (nat (sint i)))"

text \<open>
  \<open>strconv.ParseInt(s, 10, 64)\<close>.  \<open>ParseUint\<close> reads the digits into a
  \<open>uint64\<close>, stopping with a range error as soon as the next digit would
  overflow and with a syntax error at a byte that is not a decimal digit;
  \<open>ParseInt\<close> picks off one leading sign and checks the magnitude against
  \<open>2^63\<close>.
\<close>

datatype num_error = ErrSyntax | ErrRange

definition maxUint64 :: nat where
  "maxUint64 = 2 ^ 64 - 1"

fun ParseUint_loop :: "nat \<Rightarrow> string \<Rightarrow> num_error + nat" where
  "ParseUint_loop n [] = Inr n"
| "ParseUint_loop n (c # s) =
     (if (48::nat) \<le> of_char c \<and> of_char c \<le> (57::nat) then
        (let d = of_char c - (48::nat) in
         if n \<ge> maxUint64 div 10 + 1 then Inl ErrRange
         else if n * 10 + d > maxUint64 then Inl ErrRange
         else ParseUint_loop (n * 10 + d) s)
      else Inl ErrSyntax)"

definition ParseUint :: "string \<Rightarrow> num_error + nat" where
  "ParseUint s = (if s = [] then Inl ErrSyntax else ParseUint_loop 0 s)"

definition ParseInt :: "string \<Rightarrow> num_error + int64" where
  "ParseInt s =
     (if s = [] then Inl ErrSyntax
      else
        let neg = (hd s = CHR ''-'');
            s' = (if hd s = CHR ''+'' \<or> hd s = CHR ''-'' then tl s else s)
        in case ParseUint s' of
             Inl ErrSyntax \<Rightarrow> Inl ErrSyntax
           | r \<Rightarrow>
               (let un = (case r of Inl _ \<Rightarrow> maxUint64 | Inr u \<Rightarrow> u) in
                if \<not> neg \<and> un \<ge> 2 ^ 63 then Inl ErrRange
                else if neg \<and> un > 2 ^ 63 then Inl ErrRange
                else Inr (if neg then - word_of_nat un else word_of_nat un)))"

text \<open>
  What "a base-10 64-bit integer" is, said without the parser: an optional
  sign, at least one decimal digit, nothing else, and a value between
  \<open>-2^63\<close> and \<open>2^63 - 1\<close>.
\<close>

definition is_digit :: "char \<Rightarrow> bool" where
  "is_digit c = ((48::nat) \<le> of_char c \<and> of_char c \<le> (57::nat))"

definition digit_step :: "nat \<Rightarrow> char \<Rightarrow> nat" where
  "digit_step n c = n * 10 + (of_char c - 48)"

definition decimal_value :: "string \<Rightarrow> nat" where
  "decimal_value ds = foldl digit_step 0 ds"

definition parses_as_int64 :: "string \<Rightarrow> bool" where
  "parses_as_int64 s =
     (case s of
        [] \<Rightarrow> False
      | c # ds \<Rightarrow>
          if c = CHR ''-'' then ds \<noteq> [] \<and> list_all is_digit ds \<and> decimal_value ds \<le> 2 ^ 63
          else if c = CHR ''+'' then ds \<noteq> [] \<and> list_all is_digit ds \<and> decimal_value ds < 2 ^ 63
          else list_all is_digit s \<and> decimal_value s < 2 ^ 63)"

text \<open>
  \<open>hmac.Equal\<close> is \<open>subtle.ConstantTimeCompare(mac1, mac2) == 1\<close>: unequal
  lengths give 0, otherwise the bytewise XORs are OR-ed together and the
  result is compared with zero.
\<close>

definition ConstantTimeByteEq :: "byte \<Rightarrow> byte \<Rightarrow> nat" where
  "ConstantTimeByteEq x y = (if x XOR y = 0 then 1 else 0)"

fun xor_fold :: "byte \<Rightarrow> byte list \<Rightarrow> byte list \<Rightarrow> byte" where
  "xor_fold v (a # x) (b # y) = xor_fold (v OR (a XOR b)) x y"
| "xor_fold v _ _ = v"

definition ConstantTimeCompare :: "byte list \<Rightarrow> byte list \<Rightarrow> nat" where
  "ConstantTimeCompare x y =
     (if length x \<noteq> length y then 0 else ConstantTimeByteEq (xor_fold 0 x y) 0)"

definition hmac_Equal :: "byte list \<Rightarrow> byte list \<Rightarrow> bool" where
  "hmac_Equal mac1 mac2 = (ConstantTimeCompare mac1 mac2 = 1)"

text \<open>
  \<open>Sign\<close> and \<open>Validate\<close>.  HMAC-SHA256 itself (\<open>hmac.New(sha256.New, secret)\<close>,
  \<open>Write\<close>, \<open>Sum\<close>) is the parameter \<open>mac\<close>: a function from the key and the
  message to the tag.  \<open>payload\<close> is the canonical string
  \<open>fmt.Sprintf("%s:%d", fileID, expiresUnix)\<close> as bytes.
\<close>

type_synonym hmac = "byte list \<Rightarrow> byte list \<Rightarrow> byte list"

definition payload :: "string \<Rightarrow> int64 \<Rightarrow> byte list" where
  "payload fileID expiresUnix = bytes_of (fileID @ '':'' @ FormatInt expiresUnix)"

definition Sign :: "hmac \<Rightarrow> byte list \<Rightarrow> string \<Rightarrow> int64 \<Rightarrow> string" where
  "Sign mac secret fileID expiresUnix = EncodeToString (mac secret (payload fileID expiresUnix))"

definition Validate :: "hmac \<Rightarrow> byte list \<Rightarrow> string \<Rightarrow> string \<Rightarrow> string \<Rightarrow> bool" where
  "Validate mac secret fileID expires signature =
     (case ParseInt expires of
        Inl err \<Rightarrow> False
      | Inr exp \<Rightarrow> hmac_Equal (bytes_of (Sign mac secret fileID exp)) (bytes_of signature))"

text \<open>Two payloads collide when they differ and the MAC gives them one tag.\<close>

definition mac_collision :: "hmac \<Rightarrow> byte list \<Rightarrow> byte list \<Rightarrow> byte list \<Rightarrow> bool" where
  "mac_collision mac secret p q = (p \<noteq> q \<and> mac secret p = mac secret q)"

text \<open>
  \<open>time.Unix(sec, 0).Before(u)\<close>.  A \<open>Time\<close> holds seconds since
  1 January of year 1; \<open>time.Unix\<close> adds \<open>unixToInternal\<close> to \<open>sec\<close> in
  \<open>int64\<close>, where the sum wraps.  \<open>u\<close> is the reading of \<open>time.Now()\<close>,
  given as its whole seconds since the Unix epoch and its nanoseconds; its
  own seconds since year 1 do not wrap.  \<open>Before\<close> compares the seconds,
  then the nanoseconds, of which \<open>time.Unix(sec, 0)\<close> has none.
\<close>

definition unixToInternal :: int64 where
  "unixToInternal = 62135596800"

definition Unix_Before :: "int64 \<Rightarrow> int \<Rightarrow> nat \<Rightarrow> bool" where
  "Unix_Before sec now_sec now_nsec =
     (let ts = sint (sec + unixToInternal);
          us = now_sec + 62135596800
      in ts < us \<or> (ts = us \<and> 0 < now_nsec))"

text \<open>
  The checks of \<open>handleDownload\<close> (\<open>internal/server/server.go\<close>) before it
  looks the file up: the status it answers with, or \<open>None\<close> when the
  request passes.  \<open>method\<close> is \<open>r.Method\<close>; the three strings are the
  query parameters \<open>file\<close>, \<open>expires\<close> and \<open>signature\<close>, empty when
  absent.
\<close>

definition handleDownload_checks ::
    "hmac \<Rightarrow> byte list \<Rightarrow> int \<Rightarrow> nat \<Rightarrow> string \<Rightarrow> string \<Rightarrow> string \<Rightarrow> string \<Rightarrow> nat option" where
  "handleDownload_checks mac secret now_sec now_nsec method fileID expires signature =
     (if method \<noteq> ''GET'' then Some 405
      else if fileID = [] \<or> expires = [] \<or> signature = [] then Some 400
      else case ParseInt expires of
             Inl err \<Rightarrow> Some 400
           | Inr expiryUnix \<Rightarrow>
               if Unix_Before expiryUnix now_sec now_nsec then Some 401
               else if \<not> Validate mac secret fileID expires signature then Some 401
               else None)"

text \<open>
  A stand-in MAC for evaluating the definitions on concrete inputs: the tag
  is the key followed by the message.  No theorem below is about it; each
  is stated for every \<open>mac\<close>.
\<close>

definition concat_mac :: hmac where
  "concat_mac key msg = key @ msg"

subsection \<open>Package repository\<close>

text \<open>
  \<open>DocumentStatus\<close> is a Go string type with four constants.  A row of the
  table \<open>documents\<close> has the columns of the struct \<open>Document\<close>
  (\<open>internal/database/database.go\<close>: \<open>id\<close> is the primary key, \<open>processed_key\<close>
  and \<open>error_message\<close> are nullable); timestamps are integers.  The table is
  a map from the primary key to the row.
\<close>

type_synonym DocumentStatus = string

definition StatusQueued :: DocumentStatus where
  "StatusQueued = ''queued''"

definition StatusProcessing :: DocumentStatus where
  "StatusProcessing = ''processing''"

definition StatusCompleted :: DocumentStatus where
  "StatusCompleted = ''completed''"

definition StatusFailed :: DocumentStatus where
  "StatusFailed = ''failed''"

record Document =
  ID :: string
  FileName :: string
  ObjectKey :: string
  ProcessedKey :: "string option"
  Status :: DocumentStatus
  Content :: string
  ErrorMessage :: "string option"
  CreatedAt :: int
  UpdatedAt :: int

type_synonym documents = "string \<rightharpoonup> Document"

text \<open>
  \<open>Create\<close> writes status, \<open>CreatedAt\<close> and \<open>UpdatedAt\<close> into the caller's
  struct and inserts a row whose content is the empty string and whose
  error message is NULL; \<open>processed_key\<close> is not among the inserted columns, so
  it is NULL.  \<open>exec_err\<close> is the failure of \<open>pool.Exec\<close> to reach the database,
  if any; the insert itself fails on an id that is already a key.  The
  result is the returned error, the caller's struct and the table.
\<close>

definition Create :: "error \<Rightarrow> int \<Rightarrow> Document \<Rightarrow> documents \<Rightarrow> error \<times> Document \<times> documents" where
  "Create exec_err now doc0 tbl =
     (let doc = doc0\<lparr>Status := StatusQueued, CreatedAt := now, UpdatedAt := now\<rparr> in
      case exec_err of
        Some e \<Rightarrow> (Some (''insert document: '' @ e), doc, tbl)
      | None \<Rightarrow>
          if tbl (ID doc) \<noteq> None
          then (Some ''insert document: duplicate key value violates unique constraint'', doc, tbl)
          else (None, doc,
                tbl(ID doc \<mapsto>
                  \<lparr>ID = ID doc, FileName = FileName doc, ObjectKey = ObjectKey doc,
                   ProcessedKey = None, Status = Status doc, Content = [],
                   ErrorMessage = None, CreatedAt = CreatedAt doc, UpdatedAt = UpdatedAt doc\<rparr>)))"

definition Get :: "error \<Rightarrow> string \<Rightarrow> documents \<Rightarrow> string + Document" where
  "Get query_err docID tbl =
     (case query_err of
        Some e \<Rightarrow> Inl (''select document: '' @ e)
      | None \<Rightarrow>
          (case tbl docID of
             None \<Rightarrow> Inl ''document not found: no rows in result set''
           | Some row \<Rightarrow> Inr row))"

text \<open>
  \<open>updateStatus\<close>: one UPDATE.  \<open>COALESCE($2, processed_key)\<close> keeps the stored
  value when the argument is nil; \<open>error_message = $4\<close> is written as given.
  An UPDATE that matches no row changes nothing and is not an error.
\<close>

definition updateStatus ::
    "error \<Rightarrow> int \<Rightarrow> string \<Rightarrow> DocumentStatus \<Rightarrow> string option \<Rightarrow> string option \<Rightarrow> string option
     \<Rightarrow> documents \<Rightarrow> error \<times> documents" where
  "updateStatus exec_err now docID status processedKey content errorMsg tbl =
     (case exec_err of
        Some e \<Rightarrow> (Some (''update document: '' @ e), tbl)
      | None \<Rightarrow>
          (case tbl docID of
             None \<Rightarrow> (None, tbl)
           | Some row \<Rightarrow>
               (None,
                tbl(docID \<mapsto> row\<lparr>
                  Status := status,
                  ProcessedKey := (case processedKey of None \<Rightarrow> ProcessedKey row | Some k \<Rightarrow> Some k),
                  Content := (case content of None \<Rightarrow> Content row | Some c \<Rightarrow> c),
                  ErrorMessage := errorMsg,
                  UpdatedAt := now\<rparr>))))"

definition MarkProcessing :: "error \<Rightarrow> int \<Rightarrow> string \<Rightarrow> documents \<Rightarrow> error \<times> documents" where
  "MarkProcessing exec_err now docID tbl =
     updateStatus exec_err now docID StatusProcessing None None None tbl"

definition MarkFailed :: "error \<Rightarrow> int \<Rightarrow> string \<Rightarrow> string \<Rightarrow> documents \<Rightarrow> error \<times> documents" where
  "MarkFailed exec_err now docID msg tbl =
     updateStatus exec_err now docID StatusFailed None None (Some msg) tbl"

definition MarkCompleted ::
    "error \<Rightarrow> int \<Rightarrow> string \<Rightarrow> string \<Rightarrow> string \<Rightarrow> documents \<Rightarrow> error \<times> documents" where
  "MarkCompleted exec_err now docID processedKey content tbl =
     updateStatus exec_err now docID StatusCompleted (Some processedKey) (Some content) None tbl"

text \<open>
  A history of the repository: calls in order, each with the fault and the
  clock reading it meets, run from a table.
\<close>

datatype repo_call =
    CallCreate Document
  | CallMarkProcessing string
  | CallMarkFailed string string
  | CallMarkCompleted string string string

fun repo_step :: "error \<times> int \<times> repo_call \<Rightarrow> documents \<Rightarrow> documents" where
  "repo_step (exec_err, now, CallCreate doc) tbl = snd (snd (Create exec_err now doc tbl))"
| "repo_step (exec_err, now, CallMarkProcessing docID) tbl = snd (MarkProcessing exec_err now docID tbl)"
| "repo_step (exec_err, now, CallMarkFailed docID msg) tbl = snd (MarkFailed exec_err now docID msg tbl)"
| "repo_step (exec_err, now, CallMarkCompleted docID processedKey content) tbl =
     snd (MarkCompleted exec_err now docID processedKey content tbl)"

definition repo_run :: "(error \<times> int \<times> repo_call) list \<Rightarrow> documents \<Rightarrow> documents" where
  "repo_run calls tbl = fold repo_step calls tbl"

text \<open>
  What holds of every row in every reachable table: it sits under its own
  id, and an artifact or a content means the status has left \<open>queued\<close>.
\<close>

definition row_inv :: "string \<Rightarrow> Document \<Rightarrow> bool" where
  "row_inv k row =
     (ID row = k \<and>
      (ProcessedKey row = None \<and> Content row = [] \<or>
       Status row = StatusCompleted \<or> Status row = StatusProcessing \<or> Status row = StatusFailed))"

definition table_inv :: "documents \<Rightarrow> bool" where
  "table_inv tbl = (\<forall>k row. tbl k = Some row \<longrightarrow> row_inv k row)"

text \<open>
  Two tables are compared up to \<open>updated_at\<close>, which every status update
  stamps with the clock.  \<open>apply_update\<close> is the table an UPDATE that
  reaches the database leaves.
\<close>

definition forget_UpdatedAt :: "documents \<Rightarrow> documents" where
  "forget_UpdatedAt tbl = (\<lambda>k. map_option (\<lambda>row. row\<lparr>UpdatedAt := 0\<rparr>) (tbl k))"

definition apply_update ::
    "int \<Rightarrow> string \<Rightarrow> DocumentStatus \<Rightarrow> string option \<Rightarrow> string option \<Rightarrow> string option
     \<Rightarrow> documents \<Rightarrow> documents" where
  "apply_update now docID status processedKey content errorMsg tbl =
     snd (updateStatus None now docID status processedKey content errorMsg tbl)"

subsection \<open>Package s3storage and the queue\<close>

text \<open>
  A bucket maps an object key to the stored bytes and their content type.
  \<open>PutObject\<close> creates the object or overwrites it; a put that fails stores
  nothing.  \<open>DownloadRaw\<close> fails on a transport error and on a missing key.
\<close>

type_synonym bucket = "string \<rightharpoonup> byte list \<times> string"

definition UploadRaw :: "error \<Rightarrow> string \<Rightarrow> byte list \<Rightarrow> string \<Rightarrow> bucket \<Rightarrow> error \<times> bucket" where
  "UploadRaw put_err objectKey data contentType b =
     (case put_err of
        Some e \<Rightarrow> (Some (''upload raw object: '' @ e), b)
      | None \<Rightarrow> (None, b(objectKey \<mapsto> (data, contentType))))"

definition UploadProcessed :: "error \<Rightarrow> string \<Rightarrow> byte list \<Rightarrow> bucket \<Rightarrow> error \<times> bucket" where
  "UploadProcessed put_err objectKey data b =
     (case put_err of
        Some e \<Rightarrow> (Some (''upload processed object: '' @ e), b)
      | None \<Rightarrow> (None, b(objectKey \<mapsto> (data, ''text/plain; charset=utf-8''))))"

definition DownloadRaw :: "error \<Rightarrow> string \<Rightarrow> bucket \<Rightarrow> string + byte list" where
  "DownloadRaw get_err objectKey b =
     (case get_err of
        Some e \<Rightarrow> Inl (''get raw object: '' @ e)
      | None \<Rightarrow>
          (case b objectKey of
             None \<Rightarrow> Inl ''read raw object: The specified key does not exist.''
           | Some (data, contentType) \<Rightarrow> Inr data))"

record ExtractPayload =
  DocumentID :: string
  PayloadObjectKey :: string
  PayloadFileName :: string

text \<open>
  \<open>EnqueueExtract\<close>: the task \<open>document:extract\<close> with the payload and
  \<open>MaxRetry(5)\<close> is appended to the queue, unless the broker refuses.
\<close>

definition ExtractDocumentTask :: string where
  "ExtractDocumentTask = ''document:extract''"

record Task =
  TypeName :: string
  TaskPayload :: ExtractPayload
  MaxRetry :: nat

definition EnqueueExtract :: "error \<Rightarrow> ExtractPayload \<Rightarrow> Task list \<Rightarrow> error \<times> Task list" where
  "EnqueueExtract enqueue_err p q =
     (case enqueue_err of
        Some e \<Rightarrow> (Some (''enqueue extract task: '' @ e), q)
      | None \<Rightarrow> (None, q @ [\<lparr>TypeName = ExtractDocumentTask, TaskPayload = p, MaxRetry = 5\<rparr>]))"

text \<open>Everything the API process and the worker share.\<close>

record World =
  documents :: documents
  rawBucket :: bucket
  processedBucket :: bucket
  queue :: "Task list"
  tempFiles :: "string \<rightharpoonup> byte list"

subsection \<open>The extraction worker\<close>

text \<open>
  \<open>filepath.Ext\<close>: the suffix from the last dot of the last path element,
  empty when that element has no dot.  \<open>strings.TrimSuffix\<close>.
\<close>

fun ext_scan :: "string \<Rightarrow> string \<Rightarrow> string" where
  "ext_scan [] suffix = []"
| "ext_scan (c # before) suffix =
     (if c = CHR ''/'' then []
      else if c = CHR ''.'' then c # suffix
      else ext_scan before (c # suffix))"

definition Ext :: "string \<Rightarrow> string" where
  "Ext path = ext_scan (rev path) []"

definition TrimSuffix :: "string \<Rightarrow> string \<Rightarrow> string" where
  "TrimSuffix s suffix =
     (if length suffix \<le> length s \<and> drop (length s - length suffix) s = suffix
      then take (length s - length suffix) s else s)"

definition processedObjectKey :: "string \<Rightarrow> string" where
  "processedObjectKey objectKey = TrimSuffix objectKey (Ext objectKey) @ ''.txt''"

text \<open>
  The faults and clock readings one run of the handler meets.  The
  extraction capability \<open>pdfutil.ExtractText\<close> is the parameter \<open>extract\<close>, a
  function of the bytes: an error message or the text.
\<close>

record WorkerEnv =
  w_mark_processing_err :: error
  w_download_err :: error
  w_upload_err :: error
  w_mark_completed_err :: error
  w_mark_failed_err :: error
  w_time_processing :: int
  w_time_completed :: int
  w_time_failed :: int

text \<open>
  The closure \<open>failure\<close> of \<open>handleExtract\<close>: it marks the document failed with
  the error's message, ignores what \<open>MarkFailed\<close> returns, and returns the
  error.
\<close>

definition failure :: "WorkerEnv \<Rightarrow> string \<Rightarrow> string \<Rightarrow> World \<Rightarrow> error \<times> World" where
  "failure env documentID err w =
     (Some err,
      w\<lparr>documents :=
          snd (MarkFailed (w_mark_failed_err env) (w_time_failed env) documentID err (documents w))\<rparr>)"

text \<open>
  \<open>handleExtract\<close>.  The task is \<open>None\<close> when its bytes do not decode to a
  payload.
\<close>

definition handleExtract ::
    "(byte list \<Rightarrow> string + string) \<Rightarrow> WorkerEnv \<Rightarrow> ExtractPayload option \<Rightarrow> World \<Rightarrow> error \<times> World" where
  "handleExtract extract env task w =
     (case task of
        None \<Rightarrow> (Some ''decode payload: invalid JSON'', w)
      | Some p \<Rightarrow>
          (case MarkProcessing (w_mark_processing_err env) (w_time_processing env)
                  (DocumentID p) (documents w) of
             (Some err, docs1) \<Rightarrow> failure env (DocumentID p) err (w\<lparr>documents := docs1\<rparr>)
           | (None, docs1) \<Rightarrow>
               (let w1 = w\<lparr>documents := docs1\<rparr> in
                case DownloadRaw (w_download_err env) (PayloadObjectKey p) (rawBucket w1) of
                  Inl err \<Rightarrow> failure env (DocumentID p) err w1
                | Inr data \<Rightarrow>
                    (case extract data of
                       Inl err \<Rightarrow> failure env (DocumentID p) err w1
                     | Inr text \<Rightarrow>
                         (let processedKey = processedObjectKey (PayloadObjectKey p) in
                          case UploadProcessed (w_upload_err env) processedKey (bytes_of text)
                                 (processedBucket w1) of
                            (Some err, pb) \<Rightarrow>
                              failure env (DocumentID p) err (w1\<lparr>processedBucket := pb\<rparr>)
                          | (None, pb) \<Rightarrow>
                              (let w2 = w1\<lparr>processedBucket := pb\<rparr> in
                               case MarkCompleted (w_mark_completed_err env) (w_time_completed env)
                                      (DocumentID p) processedKey text (documents w2) of
                                 (Some err, docs3) \<Rightarrow>
                                   failure env (DocumentID p) err (w2\<lparr>documents := docs3\<rparr>)
                               | (None, docs3) \<Rightarrow> (None, w2\<lparr>documents := docs3\<rparr>)))))))"

text \<open>
  A stand-in for the extraction capability for evaluating the definitions
  on concrete inputs: bytes that start with \<open>%PDF-\<close> have the text
  \<open>hello\<close>, anything else is refused.  No theorem below is about it; each
  is stated for every \<open>extract\<close>.
\<close>

definition extract_stand_in :: "byte list \<Rightarrow> string + string" where
  "extract_stand_in data =
     (if take 5 data = bytes_of ''%PDF-'' then Inr ''hello''
      else Inl ''new pdf reader: not a PDF file: invalid header'')"

subsection \<open>The upload handler\<close>

text \<open>
  A multipart body is a sequence of parts; a part is read by calls of
  \<open>part.Read(buf)\<close>, each returning some bytes (possibly none) and
  possibly an error, \<open>io.EOF\<close> or another one.  The bytes of the part are
  those returned up to and including the first call that returns an error;
  a part whose list of calls is used up answers \<open>(0, io.EOF)\<close>.  A failure
  of the body reader, the byte limit of \<open>http.MaxBytesReader\<close> included,
  is a read that returns an error.
\<close>

datatype read_error = EOF | ReadFailure string

type_synonym read_result = "byte list \<times> read_error option"

record Part =
  FormName :: string
  PartFileName :: string
  Reads :: "read_result list"

datatype Request = NotMultipart | Multipart "Part list"

fun stream_bytes :: "read_result list \<Rightarrow> byte list" where
  "stream_bytes [] = []"
| "stream_bytes ((data, None) # rs) = data @ stream_bytes rs"
| "stream_bytes ((data, Some e) # rs) = data"

text \<open>\<open>nextFilePart\<close>: the first part whose form name is \<open>file\<close>.\<close>

fun nextFilePart :: "Part list \<Rightarrow> string + Part" where
  "nextFilePart [] = Inl ''EOF''"
| "nextFilePart (part # mr) = (if FormName part = ''file'' then Inr part else nextFilePart mr)"

text \<open>
  The faults, the clock reading, the temporary file name and the fresh
  document id one upload meets.  \<open>u_write_err i\<close> is the failure of the
  write to the temporary file in the loop's round \<open>i\<close>, if any.
\<close>

record UploadEnv =
  u_create_temp_err :: error
  u_temp_path :: string
  u_write_err :: "nat \<Rightarrow> error"
  u_rewind_err :: error
  u_seek_err :: error
  u_put_err :: error
  u_doc_id :: string
  u_insert_err :: error
  u_now :: int
  u_enqueue_err :: error

datatype upload_error =
    ErrCreateTemp string
  | ErrTooLarge
  | ErrWriteTemp string
  | ErrReadFile string
  | ErrEmptyFile
  | ErrRewind string

fun error_text :: "int64 \<Rightarrow> upload_error \<Rightarrow> string" where
  "error_text limit (ErrCreateTemp e) = ''create temp file: '' @ e"
| "error_text limit ErrTooLarge = ''file exceeds limit ('' @ FormatInt limit @ '' bytes)''"
| "error_text limit (ErrWriteTemp e) = ''write temp file: '' @ e"
| "error_text limit (ErrReadFile e) = ''read file: '' @ e"
| "error_text limit ErrEmptyFile = ''empty file''"
| "error_text limit (ErrRewind e) = ''rewind temp file: '' @ e"

text \<open>
  The copy loop of \<open>persistTemp\<close>.  Its state is the number of rounds done,
  \<open>written\<close>, \<open>sniff\<close> and the bytes in the temporary file.  It returns the
  number of \<open>Read\<close> calls it made and either the error it stopped with or
  \<open>written\<close>, \<open>sniff\<close> and the file's bytes at the \<open>break\<close>.
  \<open>append_sniff\<close> is the block that fills \<open>sniff\<close> up to 512 bytes from the
  front of the buffer.
\<close>

definition append_sniff :: "byte list \<Rightarrow> byte list \<Rightarrow> byte list" where
  "append_sniff sniff data =
     (if length sniff < 512
      then sniff @ take (min (length data) (512 - length sniff)) data else sniff)"

fun copy_loop ::
    "int64 \<Rightarrow> (nat \<Rightarrow> error) \<Rightarrow> read_result list \<Rightarrow> nat \<Rightarrow> int \<Rightarrow> byte list \<Rightarrow> byte list
     \<Rightarrow> nat \<times> (upload_error + int \<times> byte list \<times> byte list)" where
  "copy_loop limit write_err [] i written sniff file = (Suc i, Inr (written, sniff, file))"
| "copy_loop limit write_err ((data, readErr) # rs) i written sniff file =
     (let n = length data;
          written' = (if n > 0 then written + int n else written);
          sniff' = (if n > 0 then append_sniff sniff data else sniff);
          file' = (if n > 0 then file @ data else file)
      in
      if n > 0 \<and> written' > sint limit then (Suc i, Inl ErrTooLarge)
      else
        (case (if n > 0 then write_err i else None) of
           Some e \<Rightarrow> (Suc i, Inl (ErrWriteTemp e))
         | None \<Rightarrow>
             (case readErr of
                None \<Rightarrow> copy_loop limit write_err rs (Suc i) written' sniff' file'
              | Some EOF \<Rightarrow> (Suc i, Inr (written', sniff', file'))
              | Some (ReadFailure e) \<Rightarrow> (Suc i, Inl (ErrReadFile e)))))"

record tempUpload =
  path :: string
  size' :: int
  contentType :: string
  filename :: string

text \<open>
  \<open>persistTemp\<close>.  \<open>os.CreateTemp\<close> fails on a fault and on a name that is
  taken.  Every error path of the loop and the empty file close and remove
  the temporary file; a failed rewind returns without removing it.
  \<open>http.DetectContentType\<close> is the parameter \<open>detect\<close>.  The result is the
  number of reads made, the error or the upload, and the temporary
  directory.
\<close>

definition persistTemp ::
    "(byte list \<Rightarrow> string) \<Rightarrow> int64 \<Rightarrow> UploadEnv \<Rightarrow> Part \<Rightarrow> (string \<rightharpoonup> byte list)
     \<Rightarrow> nat \<times> (upload_error + tempUpload) \<times> (string \<rightharpoonup> byte list)" where
  "persistTemp detect limit env part fs =
     (case u_create_temp_err env of
        Some e \<Rightarrow> (0, Inl (ErrCreateTemp e), fs)
      | None \<Rightarrow>
          if fs (u_temp_path env) \<noteq> None then (0, Inl (ErrCreateTemp ''file exists''), fs)
          else
            (case copy_loop limit (u_write_err env) (Reads part) 0 0 [] [] of
               (k, Inl e) \<Rightarrow> (k, Inl e, fs(u_temp_path env := None))
             | (k, Inr (written, sniff, file)) \<Rightarrow>
                 if written = 0 then (k, Inl ErrEmptyFile, fs(u_temp_path env := None))
                 else
                   (case u_rewind_err env of
                      Some e \<Rightarrow> (k, Inl (ErrRewind e), fs(u_temp_path env \<mapsto> file))
                    | None \<Rightarrow>
                        (k,
                         Inr \<lparr>path = u_temp_path env, size' = written, contentType = detect sniff,
                              filename = (if PartFileName part = [] then ''upload.pdf''
                                          else PartFileName part)\<rparr>,
                         fs(u_temp_path env \<mapsto> file)))))"

text \<open>
  \<open>uploadToStorage\<close>: rewind, then put the \<open>size\<close> bytes of the temporary
  file under the key.
\<close>

definition uploadToStorage ::
    "UploadEnv \<Rightarrow> string \<Rightarrow> tempUpload \<Rightarrow> (string \<rightharpoonup> byte list) \<Rightarrow> bucket \<Rightarrow> error \<times> bucket" where
  "uploadToStorage env objectKey tmp fs b =
     (case u_seek_err env of
        Some e \<Rightarrow> (Some e, b)
      | None \<Rightarrow>
          UploadRaw (u_put_err env) objectKey
            (take (nat (size' tmp)) (case fs (path tmp) of None \<Rightarrow> [] | Some file \<Rightarrow> file))
            (contentType tmp) b)"

text \<open>\<open>filepath.Base\<close> with the separator \<open>/\<close>.\<close>

definition Base :: "string \<Rightarrow> string" where
  "Base p =
     (if p = [] then ''.''
      else
        let stripped = rev (dropWhile (\<lambda>c. c = CHR ''/'') (rev p));
            last_element = rev (takeWhile (\<lambda>c. c \<noteq> CHR ''/'') (rev stripped))
        in if last_element = [] then ''/'' else last_element)"

datatype ResponseBody = Text string | Json "(string \<times> string) list"

record Response =
  code :: nat
  body :: ResponseBody

text \<open>
  The side effects of the handler on the object store, the repository and
  the queue, in the order of the calls, each with whether it succeeded.
\<close>

datatype effect =
    CallUploadRaw string bool
  | CallRepoCreate string bool
  | CallEnqueue ExtractPayload bool

text \<open>
  \<open>handleUpload\<close> after \<open>persistTemp\<close> has succeeded: the content type
  check, the upload to the object store, the row, the job, the response.
\<close>

definition store_and_enqueue ::
    "UploadEnv \<Rightarrow> tempUpload \<Rightarrow> World \<Rightarrow> Response \<times> World \<times> effect list" where
  "store_and_enqueue env tmp w =
     (if contentType tmp \<noteq> ''application/pdf''
      then (\<lparr>code = 400, body = Text ''only PDF files supported''\<rparr>, w, [])
      else
        let docID = u_doc_id env;
            objectKey = ''uploads/'' @ docID @ ''/'' @ Base (filename tmp)
        in case uploadToStorage env objectKey tmp (tempFiles w) (rawBucket w) of
             (Some e, rb) \<Rightarrow>
               (\<lparr>code = 500, body = Text ''failed to store file''\<rparr>, w\<lparr>rawBucket := rb\<rparr>,
                [CallUploadRaw objectKey False])
           | (None, rb) \<Rightarrow>
               (let w1 = w\<lparr>rawBucket := rb\<rparr>;
                    doc = \<lparr>ID = docID, FileName = filename tmp, ObjectKey = objectKey,
                           ProcessedKey = None, Status = [], Content = [],
                           ErrorMessage = None, CreatedAt = 0, UpdatedAt = 0\<rparr>
                in case Create (u_insert_err env) (u_now env) doc (documents w1) of
                     (Some e, doc', docs) \<Rightarrow>
                       (\<lparr>code = 500, body = Text ''failed to store metadata''\<rparr>,
                        w1\<lparr>documents := docs\<rparr>,
                        [CallUploadRaw objectKey True, CallRepoCreate docID False])
                   | (None, doc', docs) \<Rightarrow>
                       (let w2 = w1\<lparr>documents := docs\<rparr>;
                            p = \<lparr>DocumentID = docID, PayloadObjectKey = objectKey,
                                 PayloadFileName = filename tmp\<rparr>
                        in case EnqueueExtract (u_enqueue_err env) p (queue w2) of
                             (Some e, q) \<Rightarrow>
                               (\<lparr>code = 500, body = Text ''failed to queue job''\<rparr>,
                                w2\<lparr>queue := q\<rparr>,
                                [CallUploadRaw objectKey True, CallRepoCreate docID True,
                                 CallEnqueue p False])
                           | (None, q) \<Rightarrow>
                               (\<lparr>code = 202,
                                 body = Json [(''id'', docID), (''status'', StatusQueued)]\<rparr>,
                                w2\<lparr>queue := q\<rparr>,
                                [CallUploadRaw objectKey True, CallRepoCreate docID True,
                                 CallEnqueue p True]))))"

text \<open>
  \<open>handleUpload\<close>.  The deferred \<open>os.Remove(tmp.path)\<close> runs on every return
  after \<open>persistTemp\<close> has succeeded.  The result is the response, the
  world, the side effects in order and the number of reads made on the
  part.
\<close>

definition handleUpload ::
    "(byte list \<Rightarrow> string) \<Rightarrow> int64 \<Rightarrow> UploadEnv \<Rightarrow> Request \<Rightarrow> World
     \<Rightarrow> Response \<times> World \<times> effect list \<times> nat" where
  "handleUpload detect MaxFileSize env r w =
     (case r of
        NotMultipart \<Rightarrow> (\<lparr>code = 400, body = Text ''expecting multipart form''\<rparr>, w, [], 0)
      | Multipart mr \<Rightarrow>
          (case nextFilePart mr of
             Inl e \<Rightarrow> (\<lparr>code = 400, body = Text e\<rparr>, w, [], 0)
           | Inr part \<Rightarrow>
               (case persistTemp detect MaxFileSize env part (tempFiles w) of
                  (k, Inl e, fs) \<Rightarrow>
                    (\<lparr>code = 400, body = Text (error_text MaxFileSize e)\<rparr>,
                     w\<lparr>tempFiles := fs\<rparr>, [], k)
                | (k, Inr tmp, fs) \<Rightarrow>
                    (case store_and_enqueue env tmp (w\<lparr>tempFiles := fs\<rparr>) of
                       (resp, w', effects) \<Rightarrow>
                         (resp, w'\<lparr>tempFiles := (tempFiles w')(path tmp := None)\<rparr>,
                          effects, k)))))"

text \<open>
  Notions the claims about the handler are stated with.  \<open>crossing\<close> is
  the number of reads before the first one whose bytes take the count past
  the limit; \<open>ends_with_EOF\<close> says that the part is read to its end
  without a failure.  \<open>in_order\<close> says of a list of side effects that the upload
  to the object store comes first, the row second and the job third, each
  attempted only after the one before it succeeded, and that the job names
  the key and the id of the two before it.
\<close>

fun crossing :: "int64 \<Rightarrow> read_result list \<Rightarrow> int \<Rightarrow> nat" where
  "crossing limit [] written = 0"
| "crossing limit ((data, readErr) # rs) written =
     (if length data > 0 \<and> written + int (length data) > sint limit then 0
      else Suc (crossing limit rs (written + int (length data))))"

fun ends_with_EOF :: "read_result list \<Rightarrow> bool" where
  "ends_with_EOF [] = True"
| "ends_with_EOF ((data, None) # rs) = ends_with_EOF rs"
| "ends_with_EOF ((data, Some EOF) # rs) = True"
| "ends_with_EOF ((data, Some (ReadFailure e)) # rs) = False"

fun in_order :: "effect list \<Rightarrow> bool" where
  "in_order [] = True"
| "in_order [CallUploadRaw k ok] = True"
| "in_order [CallUploadRaw k ok1, CallRepoCreate d ok2] = ok1"
| "in_order [CallUploadRaw k ok1, CallRepoCreate d ok2, CallEnqueue p ok3] =
     (ok1 \<and> ok2 \<and> DocumentID p = d \<and> PayloadObjectKey p = k)"
| "in_order effects = False"

text \<open>
  A stand-in for \<open>http.DetectContentType\<close> for evaluating the definitions
  on concrete inputs: it knows the PDF signature \<open>%PDF-\<close> and calls
  everything else plain text.  No theorem below is about it; each is stated
  for every \<open>detect\<close>.
\<close>

definition detect_pdf :: "byte list \<Rightarrow> string" where
  "detect_pdf data =
     (if take 5 data = bytes_of ''%PDF-'' then ''application/pdf''
      else ''text/plain; charset=utf-8'')"

section \<open>Proofs\<close>

subsection \<open>Bytes, hexadecimal digits, constant-time comparison\<close>

lemma xor_zero_eq: "(a::byte) XOR b = 0 \<longleftrightarrow> a = b"
  by (metis xor.right_neutral xor_self_eq xor.assoc xor.commute)

lemma of_char_lt_256: "(of_char c :: nat) < 256"
  by (cases c) simp

lemma byte_of_char_inj: "(word_of_nat (of_char c) :: byte) = word_of_nat (of_char d) \<Longrightarrow> c = d"
proof -
  assume "(word_of_nat (of_char c) :: byte) = word_of_nat (of_char d)"
  then have "take_bit 8 (of_char c :: nat) = take_bit 8 (of_char d :: nat)"
    by (simp add: word_of_nat_eq_iff)
  moreover have "take_bit 8 (of_char c :: nat) = of_char c" "take_bit 8 (of_char d :: nat) = of_char d"
    using of_char_lt_256 by (simp_all add: take_bit_nat_eq_self_iff)
  ultimately show "c = d" by simp
qed

lemma bytes_of_inj: "bytes_of s = bytes_of t \<Longrightarrow> s = t"
proof (induction s arbitrary: t)
  case Nil
  then show ?case by (simp add: bytes_of_def)
next
  case (Cons c s)
  then obtain d t' where t: "t = d # t'" by (cases t) (auto simp: bytes_of_def)
  with Cons.prems have "(word_of_nat (of_char c) :: byte) = word_of_nat (of_char d)"
    and "bytes_of s = bytes_of t'" by (simp_all add: bytes_of_def)
  then show ?case using Cons.IH t byte_of_char_inj by blast
qed

lemma low_nibble: "(v::byte) AND 0x0f = take_bit 4 v"
proof -
  have "(0x0f :: byte) = mask 4" by (simp add: mask_eq_exp_minus_1)
  then show ?thesis by (simp add: take_bit_eq_mask)
qed

lemma nibbles_eq:
  "drop_bit 4 (v::byte) = drop_bit 4 w \<Longrightarrow> v AND 0x0f = w AND 0x0f \<Longrightarrow> v = w"
  by (metis low_nibble bits_ident)

lemma high_nibble_lt: "unat (drop_bit 4 (v::byte)) < 16"
proof -
  have "unat v < 256" using unsigned_less [of v] by simp
  then have "unat v div 16 < 16" by simp
  then show ?thesis by (simp add: drop_bit_eq_div unat_div)
qed

lemma low_nibble_lt: "unat ((v::byte) AND 0x0f) < 16"
  by (simp add: low_nibble take_bit_eq_mod unat_mod)

lemma hexdigit_inj_all:
  "\<forall>i\<in>{0..<16::nat}. \<forall>j\<in>{0..<16}. hextable ! i = hextable ! j \<longrightarrow> i = j"
  by code_simp

lemma hexdigit_inj: "i < 16 \<Longrightarrow> j < 16 \<Longrightarrow> hextable ! i = hextable ! j \<Longrightarrow> i = j"
  using hexdigit_inj_all by auto

lemma hex_inj: "EncodeToString x = EncodeToString y \<Longrightarrow> x = y"
proof (induction x arbitrary: y)
  case Nil
  then show ?case by (cases y) simp_all
next
  case (Cons v x)
  then obtain w y' where y: "y = w # y'" by (cases y) simp_all
  with Cons.prems have h: "hextable ! unat (drop_bit 4 v) = hextable ! unat (drop_bit 4 w)"
    and l: "hextable ! unat (v AND 0x0f) = hextable ! unat (w AND 0x0f)"
    and r: "EncodeToString x = EncodeToString y'" by simp_all
  have "unat (drop_bit 4 v) = unat (drop_bit 4 w)"
    using h high_nibble_lt hexdigit_inj by blast
  moreover have "unat (v AND 0x0f) = unat (w AND 0x0f)"
    using l low_nibble_lt hexdigit_inj by blast
  ultimately have "drop_bit 4 v = drop_bit 4 w" "v AND 0x0f = w AND 0x0f"
    by (simp_all only: word_unat_eq_iff)
  then have "v = w" by (rule nibbles_eq)
  with Cons.IH [OF r] y show ?case by simp
qed

lemma xor_fold_zero:
  "length x = length y \<Longrightarrow> xor_fold v x y = 0 \<longleftrightarrow> v = 0 \<and> x = y"
proof (induction v x y rule: xor_fold.induct)
  case (1 v a x b y)
  then show ?case by (auto simp: or_eq_0_iff xor_zero_eq)
qed auto

lemma hmac_Equal_iff: "hmac_Equal x y \<longleftrightarrow> x = y"
  by (auto simp: hmac_Equal_def ConstantTimeCompare_def ConstantTimeByteEq_def xor_fold_zero)

subsection \<open>Formatting and parsing decimal integers\<close>

lemma of_char_digit_char_all: "\<forall>d\<in>{0..<10::nat}. (of_char (digit_char d) :: nat) = 48 + d"
  by code_simp

lemma of_char_digit_char: "d < 10 \<Longrightarrow> (of_char (digit_char d) :: nat) = 48 + d"
  using of_char_digit_char_all by simp

lemma ParseUint_loop_append:
  "ParseUint_loop n (s @ t) =
     (case ParseUint_loop n s of Inl e \<Rightarrow> Inl e | Inr m \<Rightarrow> ParseUint_loop m t)"
  by (induction s arbitrary: n) (simp_all add: Let_def)

lemma ParseUint_loop_digit:
  assumes "d < 10" and "m * 10 + d \<le> maxUint64"
  shows "ParseUint_loop m [digit_char d] = Inr (m * 10 + d)"
proof -
  have "m < maxUint64 div 10 + 1" using assms by (simp add: maxUint64_def)
  with assms show ?thesis by (simp add: of_char_digit_char Let_def)
qed

lemma ParseUint_loop_formatBits:
  "u \<le> maxUint64 \<Longrightarrow> ParseUint_loop 0 (formatBits u) = Inr u"
proof (induction u rule: formatBits.induct)
  case (1 u)
  show ?case
  proof (cases "u < 10")
    case True
    then show ?thesis
      using ParseUint_loop_digit [of u 0] "1.prems" by (subst formatBits.simps) simp
  next
    case False
    have le: "u div 10 \<le> maxUint64" using "1.prems" by simp
    have eq: "u div 10 * 10 + u mod 10 = u" by simp
    have "ParseUint_loop (u div 10) [digit_char (u mod 10)] = Inr u"
      using ParseUint_loop_digit [of "u mod 10" "u div 10"] "1.prems" eq by simp
    with False "1.IH" [OF False le] show ?thesis
      by (subst formatBits.simps) (simp add: ParseUint_loop_append)
  qed
qed

lemma formatBits_digits: "c \<in> set (formatBits u) \<Longrightarrow> \<exists>d<10. c = digit_char d"
proof (induction u rule: formatBits.induct)
  case (1 u)
  show ?case
  proof (cases "u < 10")
    case True
    with "1.prems" show ?thesis by (subst (asm) formatBits.simps) auto
  next
    case False
    with "1.prems" have "c \<in> set (formatBits (u div 10)) \<or> c = digit_char (u mod 10)"
      by (subst (asm) formatBits.simps) auto
    then show ?thesis
    proof
      assume "c \<in> set (formatBits (u div 10))"
      then show ?thesis using "1.IH" [OF False] by blast
    next
      assume "c = digit_char (u mod 10)"
      moreover have "u mod 10 < 10" by simp
      ultimately show ?thesis by blast
    qed
  qed
qed

lemma formatBits_nonempty: "formatBits u \<noteq> []"
  by (subst formatBits.simps) simp

lemma digit_char_not_special:
  "d < 10 \<Longrightarrow> digit_char d \<noteq> CHR ''-'' \<and> digit_char d \<noteq> CHR ''+'' \<and> digit_char d \<noteq> CHR '':''"
proof -
  assume d: "d < 10"
  have "(of_char (digit_char d) :: nat) \<noteq> of_char CHR ''-''"
    "(of_char (digit_char d) :: nat) \<noteq> of_char CHR ''+''"
    "(of_char (digit_char d) :: nat) \<noteq> of_char CHR '':''"
    using d by (simp_all add: of_char_digit_char)
  then show ?thesis by auto
qed

lemma hd_formatBits: "hd (formatBits u) \<noteq> CHR ''-'' \<and> hd (formatBits u) \<noteq> CHR ''+''"
proof -
  have "hd (formatBits u) \<in> set (formatBits u)" using formatBits_nonempty by simp
  then obtain d where "d < 10" "hd (formatBits u) = digit_char d"
    using formatBits_digits by blast
  then show ?thesis using digit_char_not_special by simp
qed

lemma ParseUint_formatBits: "u \<le> maxUint64 \<Longrightarrow> ParseUint (formatBits u) = Inr u"
  by (simp add: ParseUint_def formatBits_nonempty ParseUint_loop_formatBits)

lemma sint64_bounds: "- (2 ^ 63) \<le> sint (i::int64)" "sint (i::int64) < 2 ^ 63"
  using sint_ge [of i] sint_lt [of i] by simp_all

lemma ParseInt_FormatInt: "ParseInt (FormatInt i) = Inr i"
proof (cases "sint i < 0")
  case True
  define u where "u = nat (- sint i)"
  have u: "u \<le> 2 ^ 63" "u \<le> maxUint64"
    using sint64_bounds [of i] True by (simp_all add: u_def maxUint64_def)
  have w: "- (word_of_nat u :: int64) = i"
  proof -
    have "(word_of_nat u :: int64) = word_of_int (- sint i)"
      using True by (simp add: u_def)
    then show ?thesis by simp
  qed
  have "FormatInt i = CHR ''-'' # formatBits u" using True by (simp add: FormatInt_def u_def)
  then show ?thesis
    using u w by (simp add: ParseInt_def ParseUint_formatBits Let_def)
next
  case False
  define u where "u = nat (sint i)"
  have u: "u < 2 ^ 63" "u \<le> maxUint64"
    using sint64_bounds [of i] False by (simp_all add: u_def maxUint64_def)
  have w: "(word_of_nat u :: int64) = i"
    using False by (simp add: u_def)
  have f: "FormatInt i = formatBits u" using False by (simp add: FormatInt_def u_def)
  show ?thesis
    using u w hd_formatBits [of u] formatBits_nonempty [of u]
    by (simp add: f ParseInt_def ParseUint_formatBits Let_def)
qed

lemma FormatInt_inj: "FormatInt i = FormatInt j \<Longrightarrow> i = j"
  by (metis ParseInt_FormatInt sum.inject(2))

lemma formatBits_no_colon: "CHR '':'' \<notin> set (formatBits u)"
proof
  assume "CHR '':'' \<in> set (formatBits u)"
  then obtain d where "d < 10" "CHR '':'' = digit_char d"
    using formatBits_digits by blast
  then show False using digit_char_not_special [of d] by simp
qed

lemma FormatInt_no_colon: "CHR '':'' \<notin> set (FormatInt i)"
  by (simp add: FormatInt_def formatBits_no_colon)

lemma split_at_first_sep:
  "c \<notin> set as \<Longrightarrow> c \<notin> set bs \<Longrightarrow> as @ c # u = bs @ c # v \<Longrightarrow> as = bs \<and> u = v"
proof (induction as arbitrary: bs)
  case Nil
  then show ?case by (cases bs) auto
next
  case (Cons a as)
  then show ?case by (cases bs) auto
qed

lemma split_at_last_sep:
  assumes "xs @ c # ys = xs' @ c # ys'" and "c \<notin> set ys" and "c \<notin> set ys'"
  shows "xs = xs' \<and> ys = ys'"
proof -
  have "rev (xs @ c # ys) = rev (xs' @ c # ys')" using assms(1) by simp
  then have "rev ys @ c # rev xs = rev ys' @ c # rev xs'" by simp
  moreover have "c \<notin> set (rev ys)" "c \<notin> set (rev ys')" using assms by simp_all
  ultimately have "rev ys = rev ys' \<and> rev xs = rev xs'"
    by (rule split_at_first_sep [rotated 2])
  then show ?thesis by simp
qed

lemma foldl_digit_step_ge: "n * 10 ^ length s \<le> foldl digit_step n s"
proof (induction s arbitrary: n)
  case Nil
  then show ?case by simp
next
  case (Cons c s)
  have "n * 10 ^ length (c # s) = (n * 10) * 10 ^ length s" by simp
  also have "\<dots> \<le> digit_step n c * 10 ^ length s"
    by (rule mult_le_mono1) (simp add: digit_step_def)
  also have "\<dots> \<le> foldl digit_step (digit_step n c) s"
    by (rule Cons.IH)
  finally show ?case by simp
qed

lemma foldl_digit_step_ge_start: "n \<le> foldl digit_step n s"
proof -
  have "n * 1 \<le> n * 10 ^ length s" by (rule mult_le_mono2) simp
  then have "n \<le> n * 10 ^ length s" by simp
  then show ?thesis using foldl_digit_step_ge [of n s] by (rule order_trans)
qed

lemma ParseUint_loop_Cons:
  "ParseUint_loop n (c # s) =
     (if is_digit c then
        (if n \<ge> maxUint64 div 10 + 1 \<or> digit_step n c > maxUint64 then Inl ErrRange
         else ParseUint_loop (digit_step n c) s)
      else Inl ErrSyntax)"
  by (simp add: is_digit_def digit_step_def Let_def)

text \<open>
  The digit loop of \<open>ParseUint\<close> against the plain reading of the digits:
  from a start value that fits, it succeeds exactly on digit strings whose
  value fits 64 bits.
\<close>

lemma ParseUint_loop_Inr:
  "n \<le> maxUint64 \<Longrightarrow>
   ParseUint_loop n s = Inr m \<longleftrightarrow>
     list_all is_digit s \<and> foldl digit_step n s \<le> maxUint64 \<and> m = foldl digit_step n s"
proof (induction s arbitrary: n)
  case Nil
  then show ?case by auto
next
  case (Cons c s)
  show ?case
  proof (cases "is_digit c")
    case False
    then show ?thesis by (simp only: ParseUint_loop_Cons) simp
  next
    case True
    let ?n' = "digit_step n c"
    show ?thesis
    proof (cases "n \<ge> maxUint64 div 10 + 1 \<or> ?n' > maxUint64")
      case True
      then have "?n' > maxUint64" by (auto simp: digit_step_def maxUint64_def)
      then have "foldl digit_step ?n' s > maxUint64"
        using foldl_digit_step_ge_start [of ?n' s] by simp
      moreover have "ParseUint_loop n (c # s) = Inl ErrRange"
        using True \<open>is_digit c\<close> by (simp only: ParseUint_loop_Cons) simp
      ultimately show ?thesis by simp
    next
      case False
      then have "ParseUint_loop n (c # s) = ParseUint_loop ?n' s"
        using \<open>is_digit c\<close> by (simp only: ParseUint_loop_Cons) simp
      moreover have "?n' \<le> maxUint64" using False by simp
      ultimately show ?thesis using Cons.IH [of ?n'] \<open>is_digit c\<close> by simp
    qed
  qed
qed

lemma ParseUint_Inr:
  "ParseUint s = Inr u \<longleftrightarrow>
     s \<noteq> [] \<and> list_all is_digit s \<and> decimal_value s \<le> maxUint64 \<and> u = decimal_value s"
proof -
  have "(0::nat) \<le> maxUint64" by simp
  from ParseUint_loop_Inr [OF this, of s u] show ?thesis
    by (simp add: ParseUint_def decimal_value_def)
qed

lemma ParseInt_Inr:
  "ParseInt s = Inr e \<longleftrightarrow>
     s \<noteq> [] \<and>
     (\<exists>u. ParseUint (if hd s = CHR ''+'' \<or> hd s = CHR ''-'' then tl s else s) = Inr u \<and>
          (if hd s = CHR ''-'' then u \<le> 2 ^ 63 \<and> e = - word_of_nat u
           else u < 2 ^ 63 \<and> e = word_of_nat u))"
  by (auto simp: ParseInt_def Let_def maxUint64_def split: sum.splits num_error.splits)

lemma two63_le_maxUint64: "(2::nat) ^ 63 \<le> maxUint64"
  by (simp add: maxUint64_def)

lemma ParseInt_parses: "(\<exists>e. ParseInt s = Inr e) \<longleftrightarrow> parses_as_int64 s"
proof (cases s)
  case Nil
  then show ?thesis by (simp add: ParseInt_def parses_as_int64_def)
next
  case (Cons c ds)
  consider (minus) "c = CHR ''-''" | (plus) "c = CHR ''+''" | (digits) "c \<noteq> CHR ''-''" "c \<noteq> CHR ''+''"
    by blast
  then show ?thesis
  proof cases
    case minus
    have "(\<exists>e. ParseInt s = Inr e) \<longleftrightarrow> (\<exists>u. ParseUint ds = Inr u \<and> u \<le> 2 ^ 63)"
      using Cons minus by (simp add: ParseInt_Inr)
    also have "\<dots> \<longleftrightarrow> ds \<noteq> [] \<and> list_all is_digit ds \<and> decimal_value ds \<le> 2 ^ 63"
      using two63_le_maxUint64 by (auto simp: ParseUint_Inr)
    finally show ?thesis using Cons minus by (simp add: parses_as_int64_def)
  next
    case plus
    have "(\<exists>e. ParseInt s = Inr e) \<longleftrightarrow> (\<exists>u. ParseUint ds = Inr u \<and> u < 2 ^ 63)"
      using Cons plus by (simp add: ParseInt_Inr)
    also have "\<dots> \<longleftrightarrow> ds \<noteq> [] \<and> list_all is_digit ds \<and> decimal_value ds < 2 ^ 63"
      using two63_le_maxUint64 by (auto simp: ParseUint_Inr)
    finally show ?thesis using Cons plus by (simp add: parses_as_int64_def)
  next
    case digits
    have "(\<exists>e. ParseInt s = Inr e) \<longleftrightarrow> (\<exists>u. ParseUint s = Inr u \<and> u < 2 ^ 63)"
      using Cons digits by (simp add: ParseInt_Inr)
    also have "\<dots> \<longleftrightarrow> list_all is_digit s \<and> decimal_value s < 2 ^ 63"
      using two63_le_maxUint64 Cons by (auto simp: ParseUint_Inr)
    finally show ?thesis using Cons digits by (simp add: parses_as_int64_def)
  qed
qed

subsection \<open>Sign and Validate\<close>

lemma payload_inj: "payload f e = payload f' e' \<Longrightarrow> f = f' \<and> e = e'"
proof -
  assume "payload f e = payload f' e'"
  then have "f @ CHR '':'' # FormatInt e = f' @ CHR '':'' # FormatInt e'"
    using bytes_of_inj by (simp add: payload_def)
  then have "f = f' \<and> FormatInt e = FormatInt e'"
    by (rule split_at_last_sep) (rule FormatInt_no_colon)+
  then show ?thesis using FormatInt_inj by blast
qed

lemma Validate_iff:
  "Validate mac secret fileID expires signature \<longleftrightarrow>
     (\<exists>e. ParseInt expires = Inr e \<and> signature = Sign mac secret fileID e)"
  using bytes_of_inj by (auto simp: Validate_def hmac_Equal_iff split: sum.splits)

lemma Sign_eq_iff:
  "Sign mac secret f e = Sign mac secret f' e' \<longleftrightarrow>
     (f = f' \<and> e = e') \<or> mac_collision mac secret (payload f e) (payload f' e')"
  using hex_inj payload_inj by (auto simp: Sign_def mac_collision_def)

lemma sint_add_unixToInternal:
  "sint (sec + unixToInternal) =
     (if sint sec + 62135596800 < 2 ^ 63 then sint sec + 62135596800
      else sint sec + 62135596800 - 2 ^ 64)"
proof -
  have c: "sint unixToInternal = 62135596800" by (simp add: unixToInternal_def)
  have lo: "- (2 ^ 63) \<le> sint sec" and hi: "sint sec < 2 ^ 63"
    using sint64_bounds [of sec] by simp_all
  have add: "sint (sec + unixToInternal) = signed_take_bit 63 (sint sec + 62135596800)"
    by (simp add: sint_word_add c)
  show ?thesis
  proof (cases "sint sec + 62135596800 < 2 ^ 63")
    case True
    then have "signed_take_bit 63 (sint sec + 62135596800) = sint sec + 62135596800"
      using lo by (intro signed_take_bit_int_eq_self) simp_all
    with add True show ?thesis by simp
  next
    case False
    let ?k = "sint sec + 62135596800"
    have "(?k - 2 ^ 64) mod 2 ^ 64 = ?k mod 2 ^ 64"
      using mod_diff_right_eq [of ?k "2 ^ 64" "2 ^ 64"] by simp
    then have "take_bit (Suc 63) ?k = take_bit (Suc 63) (?k - 2 ^ 64)"
      by (simp add: take_bit_eq_mod)
    then have "signed_take_bit 63 ?k = signed_take_bit 63 (?k - 2 ^ 64)"
      by (simp only: signed_take_bit_eq_iff_take_bit_eq)
    also have "\<dots> = ?k - 2 ^ 64"
      using False hi by (intro signed_take_bit_int_eq_self) simp_all
    finally show ?thesis using add False by simp
  qed
qed

lemma Unix_Before_iff:
  assumes "- 62135596800 \<le> now_sec"
  shows "Unix_Before sec now_sec now_nsec \<longleftrightarrow>
           2 ^ 63 \<le> sint sec + 62135596800
         \<or> sint sec < now_sec \<or> (sint sec = now_sec \<and> 0 < now_nsec)"
proof (cases "sint sec + 62135596800 < 2 ^ 63")
  case True
  then show ?thesis by (auto simp: Unix_Before_def sint_add_unixToInternal Let_def)
next
  case False
  have "sint sec < 2 ^ 63" using sint64_bounds [of sec] by simp
  then have "sint sec + 62135596800 - 2 ^ 64 < 0" by simp
  with False assms show ?thesis
    by (auto simp: Unix_Before_def sint_add_unixToInternal Let_def)
qed

lemma ParseInt_nonempty: "ParseInt s = Inr e \<Longrightarrow> s \<noteq> []"
  by (auto simp: ParseInt_def)

subsection \<open>The repository\<close>

lemma status_distinct:
  "StatusQueued \<noteq> StatusProcessing" "StatusQueued \<noteq> StatusCompleted"
  "StatusQueued \<noteq> StatusFailed" "StatusProcessing \<noteq> StatusCompleted"
  "StatusProcessing \<noteq> StatusFailed" "StatusCompleted \<noteq> StatusFailed"
  by (simp_all add: StatusQueued_def StatusProcessing_def StatusCompleted_def StatusFailed_def)

lemma table_inv_empty: "table_inv Map.empty"
  by (simp add: table_inv_def)

lemma table_inv_Create: "table_inv tbl \<Longrightarrow> table_inv (snd (snd (Create exec_err now doc tbl)))"
  by (auto simp: table_inv_def Create_def Let_def row_inv_def split: option.splits)

lemma table_inv_updateStatus:
  assumes "table_inv tbl"
    and "status = StatusCompleted \<or> status = StatusProcessing \<or> status = StatusFailed"
  shows "table_inv (snd (updateStatus exec_err now docID status processedKey content errorMsg tbl))"
  using assms
  by (auto simp: table_inv_def updateStatus_def row_inv_def split: option.splits)

lemma table_inv_step: "table_inv tbl \<Longrightarrow> table_inv (repo_step c tbl)"
proof (cases c)
  case (fields exec_err now call)
  assume inv: "table_inv tbl"
  show ?thesis
  proof (cases call)
    case (CallCreate doc)
    with fields inv show ?thesis by (simp add: table_inv_Create)
  next
    case (CallMarkProcessing docID)
    with fields inv show ?thesis by (simp add: MarkProcessing_def table_inv_updateStatus)
  next
    case (CallMarkFailed docID msg)
    with fields inv show ?thesis by (simp add: MarkFailed_def table_inv_updateStatus)
  next
    case (CallMarkCompleted docID k content)
    with fields inv show ?thesis by (simp add: MarkCompleted_def table_inv_updateStatus)
  qed
qed

lemma table_inv_run: "table_inv tbl \<Longrightarrow> table_inv (repo_run calls tbl)"
  unfolding repo_run_def
  by (induction calls arbitrary: tbl) (simp_all add: table_inv_step)

subsection \<open>The worker\<close>

lemma updateStatus_None:
  "updateStatus None now docID status processedKey content errorMsg tbl =
     (None, apply_update now docID status processedKey content errorMsg tbl)"
  by (simp add: apply_update_def updateStatus_def split: option.splits)

lemma updateStatus_Some:
  "updateStatus (Some e) now docID status processedKey content errorMsg tbl =
     (Some (''update document: '' @ e), tbl)"
  by (simp add: updateStatus_def)

text \<open>Two updates of one row in a row are one update: the later values win.\<close>

lemma apply_update_twice:
  "apply_update t2 docID s2 pk2 c2 e2 (apply_update t1 docID s1 pk1 c1 e1 tbl) =
     apply_update t2 docID s2
       (case pk2 of None \<Rightarrow> pk1 | Some k \<Rightarrow> Some k)
       (case c2 of None \<Rightarrow> c1 | Some c \<Rightarrow> Some c) e2 tbl"
  by (auto simp: apply_update_def updateStatus_def split: option.splits)

lemma forget_apply_update:
  "forget_UpdatedAt (apply_update t docID s pk c e tbl) =
   forget_UpdatedAt (apply_update t' docID s pk c e tbl)"
  by (auto simp: forget_UpdatedAt_def apply_update_def updateStatus_def fun_eq_iff
      split: option.splits)

subsection \<open>The copy loop of persistTemp\<close>

lemma append_sniff_take:
  assumes "sniff = take 512 pre"
  shows "append_sniff sniff data = take 512 (pre @ data)"
proof (cases "length sniff < 512")
  case True
  then have "length pre < 512" using assms by (simp add: min_def split: if_splits)
  then show ?thesis using assms True by (simp add: append_sniff_def min_def)
next
  case False
  then have "512 \<le> length pre" using assms by simp
  then show ?thesis using assms False by (simp add: append_sniff_def)
qed

lemma append_sniff_Nil: "sniff = take 512 pre \<Longrightarrow> append_sniff sniff [] = sniff"
  by (simp add: append_sniff_def)

text \<open>One round of the loop, with the bookkeeping of empty reads folded away.\<close>

lemma copy_loop_Cons:
  assumes "sniff = take 512 pre"
  shows "copy_loop limit werr ((data, readErr) # rs) i written sniff fdata =
     (if data \<noteq> [] \<and> written + int (length data) > sint limit then (Suc i, Inl ErrTooLarge)
      else
        (case (if data \<noteq> [] then werr i else None) of
           Some e \<Rightarrow> (Suc i, Inl (ErrWriteTemp e))
         | None \<Rightarrow>
             (case readErr of
                None \<Rightarrow> copy_loop limit werr rs (Suc i) (written + int (length data))
                          (take 512 (pre @ data)) (fdata @ data)
              | Some EOF \<Rightarrow>
                  (Suc i, Inr (written + int (length data), take 512 (pre @ data), fdata @ data))
              | Some (ReadFailure e) \<Rightarrow> (Suc i, Inl (ErrReadFile e)))))"
proof (cases "data = []")
  case True
  then show ?thesis using assms
    by (auto simp: Let_def split: option.splits read_error.splits)
next
  case False
  have "append_sniff sniff data = take 512 (pre @ data)" using assms by (rule append_sniff_take)
  with False show ?thesis
    by (simp add: Let_def del: take_append split: option.splits read_error.splits)
qed

lemma copy_loop_next:
  assumes "sniff = take 512 pre"
    and "\<not> (data \<noteq> [] \<and> written + int (length data) > sint limit)"
    and "data \<noteq> [] \<longrightarrow> werr i = None"
  shows "copy_loop limit werr ((data, None) # rs) i written sniff fdata =
         copy_loop limit werr rs (Suc i) (written + int (length data))
           (take 512 (pre @ data)) (fdata @ data)"
  using assms(2,3) by (subst copy_loop_Cons [OF assms(1)]) auto

lemma copy_loop_eof:
  assumes "sniff = take 512 pre"
    and "\<not> (data \<noteq> [] \<and> written + int (length data) > sint limit)"
    and "data \<noteq> [] \<longrightarrow> werr i = None"
  shows "copy_loop limit werr ((data, Some EOF) # rs) i written sniff fdata =
         (Suc i, Inr (written + int (length data), take 512 (pre @ data), fdata @ data))"
  using assms(2,3) by (subst copy_loop_Cons [OF assms(1)]) auto

lemma copy_loop_Inr:
  assumes "copy_loop limit werr rs i written sniff fdata = (k, Inr (written', sniff', fdata'))"
    and "sniff = take 512 pre"
  shows "sniff' = take 512 (pre @ stream_bytes rs)
       \<and> fdata' = fdata @ stream_bytes rs
       \<and> written' = written + int (length (stream_bytes rs))
       \<and> (written' \<noteq> written \<longrightarrow> written' \<le> sint limit)"
  using assms
proof (induction rs arbitrary: i written sniff fdata pre)
  case Nil
  then show ?case by simp
next
  case (Cons r rs)
  obtain data readErr where r: "r = (data, readErr)" by (cases r)
  note step = copy_loop_Cons [OF Cons.prems(2), of limit werr data readErr rs i written fdata]
  from Cons.prems(1) r step
  have ok: "\<not> (data \<noteq> [] \<and> written + int (length data) > sint limit)"
    by (auto split: if_splits)
  show ?case
  proof (cases readErr)
    case None
    with Cons.prems(1) r step ok
    have "copy_loop limit werr rs (Suc i) (written + int (length data))
            (take 512 (pre @ data)) (fdata @ data) = (k, Inr (written', sniff', fdata'))"
      by (auto split: if_splits option.splits)
    from Cons.IH [OF this refl] r None ok show ?thesis
      by (cases "data = []") auto
  next
    case (Some e)
    with Cons.prems(1) r step ok have "e = EOF \<and> written' = written + int (length data)
        \<and> sniff' = take 512 (pre @ data) \<and> fdata' = fdata @ data"
      by (cases e) (auto split: if_splits option.splits)
    with r Some ok show ?thesis by (cases "data = []") auto
  qed
qed

text \<open>The loop never reads past the read that crosses the limit.\<close>

lemma copy_loop_reads:
  "sniff = take 512 pre \<Longrightarrow>
   fst (copy_loop limit werr rs i written sniff fdata) \<le> i + crossing limit rs written + 1"
proof (induction rs arbitrary: i written sniff fdata pre)
  case Nil
  then show ?case by simp
next
  case (Cons r rs)
  obtain data readErr where r: "r = (data, readErr)" by (cases r)
  note step = copy_loop_Cons [OF Cons.prems, of limit werr data readErr rs i written fdata]
  have IH: "fst (copy_loop limit werr rs (Suc i) (written + int (length data))
            (take 512 (pre @ data)) (fdata @ data))
        \<le> Suc i + crossing limit rs (written + int (length data)) + 1"
    by (rule Cons.IH) (rule refl)
  show ?case
  proof (cases "data \<noteq> [] \<and> written + int (length data) > sint limit")
    case True
    then show ?thesis using r step by simp
  next
    case False
    then have c: "crossing limit (r # rs) written = Suc (crossing limit rs (written + int (length data)))"
      using r by auto
    show ?thesis unfolding c r step using False IH
      by (auto split: option.splits read_error.splits)
  qed
qed

text \<open>
  With no write fault, a part whose bytes exceed the limit stops the loop at
  the crossing read with the oversize error.
\<close>

lemma copy_loop_too_large:
  assumes "written \<le> sint limit"
    and "written + int (length (stream_bytes rs)) > sint limit"
    and "\<forall>j. werr j = None"
    and "sniff = take 512 pre"
  shows "copy_loop limit werr rs i written sniff fdata
           = (i + crossing limit rs written + 1, Inl ErrTooLarge)
       \<and> crossing limit rs written < length rs"
  using assms(1,2,4)
proof (induction rs arbitrary: i written sniff fdata pre)
  case Nil
  then show ?case by simp
next
  case (Cons r rs)
  obtain data readErr where r: "r = (data, readErr)" by (cases r)
  note step = copy_loop_Cons [OF Cons.prems(3), of limit werr data readErr rs i written fdata]
  show ?case
  proof (cases "data \<noteq> [] \<and> written + int (length data) > sint limit")
    case True
    then show ?thesis using r step by simp
  next
    case False
    then have le: "written + int (length data) \<le> sint limit"
      using Cons.prems(1) by (cases "data = []") auto
    have c: "crossing limit (r # rs) written = Suc (crossing limit rs (written + int (length data)))"
      using r False by auto
    show ?thesis
    proof (cases readErr)
      case None
      with Cons.prems(2) r
      have over: "(written + int (length data)) + int (length (stream_bytes rs)) > sint limit"
        by simp
      have eq: "copy_loop limit werr (r # rs) i written sniff fdata =
          copy_loop limit werr rs (Suc i) (written + int (length data))
            (take 512 (pre @ data)) (fdata @ data)"
        unfolding r None using Cons.prems(3) False assms(3) by (intro copy_loop_next) auto
      from Cons.IH [OF le over refl, of "Suc i" "pre @ data" "fdata @ data"]
      show ?thesis unfolding eq c by simp
    next
      case (Some e)
      with Cons.prems(2) r le show ?thesis by simp
    qed
  qed
qed

text \<open>
  With no fault at all, a part that ends with \<open>io.EOF\<close> and fits the limit
  is copied whole.
\<close>

lemma copy_loop_ok:
  assumes "written + int (length (stream_bytes rs)) \<le> sint limit"
    and "\<forall>j. werr j = None"
    and "ends_with_EOF rs"
    and "sniff = take 512 pre"
  shows "\<exists>k. copy_loop limit werr rs i written sniff fdata
           = (k, Inr (written + int (length (stream_bytes rs)),
                      take 512 (pre @ stream_bytes rs), fdata @ stream_bytes rs))"
  using assms(1,3,4)
proof (induction rs arbitrary: i written sniff fdata pre)
  case Nil
  then show ?case by simp
next
  case (Cons r rs)
  obtain data readErr where r: "r = (data, readErr)" by (cases r)
  note step = copy_loop_Cons [OF Cons.prems(3), of limit werr data readErr rs i written fdata]
  show ?case
  proof (cases readErr)
    case None
    with Cons.prems r
    have le: "(written + int (length data)) + int (length (stream_bytes rs)) \<le> sint limit"
      and ends: "ends_with_EOF rs" by simp_all
    then have fits: "\<not> (data \<noteq> [] \<and> written + int (length data) > sint limit)" by auto
    have eq: "copy_loop limit werr (r # rs) i written sniff fdata =
        copy_loop limit werr rs (Suc i) (written + int (length data))
          (take 512 (pre @ data)) (fdata @ data)"
      unfolding r None using Cons.prems(3) fits assms(2) by (intro copy_loop_next) auto
    have sb: "stream_bytes (r # rs) = data @ stream_bytes rs" using r None by simp
    from Cons.IH [OF le ends refl, of "Suc i" "pre @ data" "fdata @ data"]
    show ?thesis unfolding eq sb by (simp add: add.assoc)
  next
    case (Some e)
    with Cons.prems r have e: "e = EOF" by (cases e) simp_all
    from Cons.prems(1) r Some
    have fits: "\<not> (data \<noteq> [] \<and> written + int (length data) > sint limit)" by auto
    have eq: "copy_loop limit werr (r # rs) i written sniff fdata =
        (Suc i, Inr (written + int (length data), take 512 (pre @ data), fdata @ data))"
      unfolding r Some e using Cons.prems(3) fits assms(2) by (intro copy_loop_eof) auto
    have sb: "stream_bytes (r # rs) = data" using r Some by simp
    show ?thesis unfolding eq sb by simp
  qed
qed

subsection \<open>Claims about the signer\<close>

text \<open>
  Claim C1, as stated: \<open>Validate(id, expiry, Sign(id, expiry))\<close> is true while
  \<open>now < expiry\<close>, false for any mutated id, expiry string or signature, and
  false for an expired timestamp even with the correct signature.

  \<open>Validate\<close> has no clock among its inputs, so its answer for a correctly
  signed expiry of 1700000000 (14 November 2023) is \<open>True\<close> at every moment,
  later ones included; and the expiry string \<open>+1700000000\<close>, which differs
  from the signed one, is accepted too, because the signature binds the
  parsed integer.  Both hold whatever the MAC is.
\<close>

theorem Validate_ignores_clock_and_spelling:
  "(\<forall>mac. Validate mac (bytes_of ''topsecret'') ''file123'' ''1700000000''
            (Sign mac (bytes_of ''topsecret'') ''file123'' 1700000000))
   \<and> (\<forall>mac. Validate mac (bytes_of ''topsecret'') ''file123'' ''+1700000000''
            (Sign mac (bytes_of ''topsecret'') ''file123'' 1700000000))
   \<and> ''+1700000000'' \<noteq> ''1700000000''"
proof (intro conjI allI)
  fix mac :: hmac
  have p1: "ParseInt ''1700000000'' = Inr 1700000000"
    by (simp add: ParseInt_def ParseUint_def maxUint64_def Let_def)
  have p2: "ParseInt ''+1700000000'' = Inr 1700000000"
    by (simp add: ParseInt_def ParseUint_def maxUint64_def Let_def)
  show "Validate mac (bytes_of ''topsecret'') ''file123'' ''1700000000''
      (Sign mac (bytes_of ''topsecret'') ''file123'' 1700000000)"
    unfolding Validate_iff using p1 by blast
  show "Validate mac (bytes_of ''topsecret'') ''file123'' ''+1700000000''
      (Sign mac (bytes_of ''topsecret'') ''file123'' 1700000000)"
    unfolding Validate_iff using p2 by blast
  show "''+1700000000'' \<noteq> ''1700000000''" by simp
qed

text \<open>
  Claim C1, amended.  For every id and expiry,
  \<open>Validate(id, e, Sign(id, expiry))\<close> is true for every expiry string \<open>e\<close>
  that parses to the signed expiry, the canonical \<open>FormatInt(expiry)\<close> and
  any other spelling alike, and at any time: \<open>Validate\<close> does not read the
  clock.  It is false for every signature other than \<open>Sign(id, expiry)\<close>;
  false for every expiry string that is not a base-10 64-bit integer; and
  false for an id or a parsed expiry that differs from the signed one, unless
  the MAC collides on the two payloads.

  Expiry is enforced by the caller.  \<open>handleDownload\<close>, for a GET request
  with non-empty \<open>file\<close>, \<open>expires\<close> and \<open>signature\<close> whose \<open>expires\<close>
  parses, answers 401 when the expiry lies before now (now being a time of
  the common era), whatever the signature and however the expiry is spelled;
  it lets the request pass when the expiry does not lie before now and the
  signature is \<open>Sign(id, expiry)\<close>, provided \<open>expiry + 62135596800\<close> fits
  \<open>int64\<close>; and it answers 401 for the expiries beyond, where the sum in
  \<open>time.Unix\<close> wraps.
\<close>

theorem Validate_of_Sign:
  "(ParseInt expires = Inr exp \<longrightarrow>
      Validate mac secret fileID expires (Sign mac secret fileID exp))
   \<and> Validate mac secret fileID (FormatInt exp) (Sign mac secret fileID exp)
   \<and> (ParseInt expires = Inr exp \<and> signature \<noteq> Sign mac secret fileID exp \<longrightarrow>
        \<not> Validate mac secret fileID expires signature)
   \<and> (\<not> parses_as_int64 expires' \<longrightarrow> \<not> Validate mac secret fileID' expires' signature)
   \<and> (ParseInt expires' = Inr exp' \<and> (fileID' \<noteq> fileID \<or> exp' \<noteq> exp)
        \<and> \<not> mac_collision mac secret (payload fileID' exp') (payload fileID exp) \<longrightarrow>
        \<not> Validate mac secret fileID' expires' (Sign mac secret fileID exp))
   \<and> (fileID \<noteq> [] \<and> signature \<noteq> [] \<and> ParseInt expires = Inr exp
        \<and> - 62135596800 \<le> now_sec
        \<and> (sint exp < now_sec \<or> sint exp = now_sec \<and> 0 < now_nsec) \<longrightarrow>
        handleDownload_checks mac secret now_sec now_nsec ''GET'' fileID expires signature
          = Some 401)
   \<and> (fileID \<noteq> [] \<and> Sign mac secret fileID exp \<noteq> [] \<and> ParseInt expires = Inr exp
        \<and> sint exp + 62135596800 < 2 ^ 63
        \<and> (now_sec < sint exp \<or> now_sec = sint exp \<and> now_nsec = 0) \<longrightarrow>
        handleDownload_checks mac secret now_sec now_nsec ''GET'' fileID expires
          (Sign mac secret fileID exp) = None)
   \<and> (fileID \<noteq> [] \<and> signature \<noteq> [] \<and> ParseInt expires = Inr exp
        \<and> - 62135596800 \<le> now_sec \<and> 2 ^ 63 \<le> sint exp + 62135596800 \<longrightarrow>
        handleDownload_checks mac secret now_sec now_nsec ''GET'' fileID expires signature
          = Some 401)"
proof (intro conjI impI)
  assume "ParseInt expires = Inr exp"
  then show "Validate mac secret fileID expires (Sign mac secret fileID exp)"
    by (simp add: Validate_iff)
next
  show "Validate mac secret fileID (FormatInt exp) (Sign mac secret fileID exp)"
    by (simp add: Validate_iff ParseInt_FormatInt)
next
  assume "ParseInt expires = Inr exp \<and> signature \<noteq> Sign mac secret fileID exp"
  then show "\<not> Validate mac secret fileID expires signature"
    by (simp add: Validate_iff)
next
  assume "\<not> parses_as_int64 expires'"
  then have "\<forall>e. ParseInt expires' \<noteq> Inr e" using ParseInt_parses by blast
  then show "\<not> Validate mac secret fileID' expires' signature"
    by (simp add: Validate_iff)
next
  assume a: "ParseInt expires' = Inr exp' \<and> (fileID' \<noteq> fileID \<or> exp' \<noteq> exp)
    \<and> \<not> mac_collision mac secret (payload fileID' exp') (payload fileID exp)"
  then have "Sign mac secret fileID exp \<noteq> Sign mac secret fileID' exp'"
    by (auto simp: Sign_eq_iff mac_collision_def)
  with a show "\<not> Validate mac secret fileID' expires' (Sign mac secret fileID exp)"
    by (simp add: Validate_iff)
next
  assume a: "fileID \<noteq> [] \<and> signature \<noteq> [] \<and> ParseInt expires = Inr exp
        \<and> - 62135596800 \<le> now_sec
        \<and> (sint exp < now_sec \<or> sint exp = now_sec \<and> 0 < now_nsec)"
  then have "expires \<noteq> []" using ParseInt_nonempty by blast
  moreover from a have "Unix_Before exp now_sec now_nsec"
    by (simp add: Unix_Before_iff)
  ultimately
  show "handleDownload_checks mac secret now_sec now_nsec ''GET'' fileID expires signature
      = Some 401"
    using a by (simp add: handleDownload_checks_def)
next
  assume a: "fileID \<noteq> [] \<and> Sign mac secret fileID exp \<noteq> [] \<and> ParseInt expires = Inr exp
        \<and> sint exp + 62135596800 < 2 ^ 63
        \<and> (now_sec < sint exp \<or> now_sec = sint exp \<and> now_nsec = 0)"
  then have "expires \<noteq> []" using ParseInt_nonempty by blast
  moreover from a have "\<not> Unix_Before exp now_sec now_nsec"
    by (auto simp: Unix_Before_def sint_add_unixToInternal Let_def)
  moreover from a have "Validate mac secret fileID expires (Sign mac secret fileID exp)"
    by (simp add: Validate_iff)
  ultimately
  show "handleDownload_checks mac secret now_sec now_nsec ''GET'' fileID expires
      (Sign mac secret fileID exp) = None"
    using a by (simp add: handleDownload_checks_def)
next
  assume a: "fileID \<noteq> [] \<and> signature \<noteq> [] \<and> ParseInt expires = Inr exp
        \<and> - 62135596800 \<le> now_sec \<and> 2 ^ 63 \<le> sint exp + 62135596800"
  then have "expires \<noteq> []" using ParseInt_nonempty by blast
  moreover from a have "Unix_Before exp now_sec now_nsec"
    by (simp add: Unix_Before_iff)
  ultimately
  show "handleDownload_checks mac secret now_sec now_nsec ''GET'' fileID expires signature
      = Some 401"
    using a by (simp add: handleDownload_checks_def)
qed

text \<open>
  The theorem at the inputs of the repository's own test (\<open>signing_test.go\<close>):
  the signature of \<open>file123\<close> validates under the spellings \<open>1700000000\<close>
  and \<open>+1700000000\<close>; it fails for another signature, for the expiry
  \<open>17e8\<close>, and for the id \<open>wrong\<close> with the expiry \<open>42\<close>.  Presented with
  its correct signature, the URL is refused in 2027 (second 1800000000) under
  either spelling and passes in the last second of its life; an expiry of
  \<open>2^63 - 1\<close> is refused.
\<close>

theorem Validate_of_Sign_witness:
  "Validate concat_mac (bytes_of ''topsecret'') ''file123'' ''+1700000000''
     (Sign concat_mac (bytes_of ''topsecret'') ''file123'' 1700000000)
   \<and> Validate concat_mac (bytes_of ''topsecret'') ''file123'' ''1700000000''
     (Sign concat_mac (bytes_of ''topsecret'') ''file123'' 1700000000)
   \<and> \<not> Validate concat_mac (bytes_of ''topsecret'') ''file123'' ''+1700000000'' ''00''
   \<and> \<not> Validate concat_mac (bytes_of ''topsecret'') ''wrong'' ''17e8'' ''00''
   \<and> \<not> Validate concat_mac (bytes_of ''topsecret'') ''wrong'' ''42''
       (Sign concat_mac (bytes_of ''topsecret'') ''file123'' 1700000000)
   \<and> handleDownload_checks concat_mac (bytes_of ''topsecret'') 1800000000 0 ''GET''
       ''file123'' ''+1700000000''
       (Sign concat_mac (bytes_of ''topsecret'') ''file123'' 1700000000) = Some 401
   \<and> handleDownload_checks concat_mac (bytes_of ''topsecret'') 1700000000 0 ''GET''
       ''file123'' ''+1700000000''
       (Sign concat_mac (bytes_of ''topsecret'') ''file123'' 1700000000) = None
   \<and> handleDownload_checks concat_mac (bytes_of ''topsecret'') 1800000000 0 ''GET''
       ''file123'' ''9223372036854775807''
       (Sign concat_mac (bytes_of ''topsecret'') ''file123'' 9223372036854775807) = Some 401"
proof -
  let ?k = "bytes_of ''topsecret''"
  let ?sig = "Sign concat_mac ?k ''file123'' 1700000000"
  let ?big = "Sign concat_mac ?k ''file123'' 9223372036854775807"
  have f: "FormatInt 1700000000 = ''1700000000''"
    by (simp add: FormatInt_def formatBits.simps digit_char_def)
  have f42: "FormatInt 42 = ''42''"
    by (simp add: FormatInt_def formatBits.simps digit_char_def)
  have fbig: "FormatInt 9223372036854775807 = ''9223372036854775807''"
    by (simp add: FormatInt_def formatBits.simps digit_char_def)
  have p: "ParseInt ''+1700000000'' = Inr 1700000000"
    by (simp add: ParseInt_def ParseUint_def maxUint64_def Let_def)
  have p42: "ParseInt ''42'' = Inr 42"
    by (simp add: ParseInt_def ParseUint_def maxUint64_def Let_def)
  have pbig: "ParseInt ''9223372036854775807'' = Inr 9223372036854775807"
    by (simp add: ParseInt_def ParseUint_def maxUint64_def Let_def)
  have s00: "''00'' \<noteq> ?sig"
    by (simp only: Sign_def payload_def f) code_simp
  have sne: "?sig \<noteq> []"
    by (simp only: Sign_def payload_def f) code_simp
  have bne: "?big \<noteq> []"
    by (simp only: Sign_def payload_def fbig) code_simp
  have h3: "\<not> parses_as_int64 ''17e8''"
    by (simp add: parses_as_int64_def is_digit_def)
  have c: "\<not> mac_collision concat_mac ?k (payload ''wrong'' 42) (payload ''file123'' 1700000000)"
    by (simp only: mac_collision_def payload_def f f42) code_simp
  have n: "''file123'' \<noteq> []" by simp
  have ad: "- 62135596800 \<le> (1800000000::int)" by simp
  have t1: "sint (1700000000::int64) < 1800000000" by simp
  have t2: "sint (1700000000::int64) + 62135596800 < 2 ^ 63" by simp
  have t2': "(1700000000::int) = sint (1700000000::int64) \<and> (0::nat) = 0" by simp
  have t3: "(2::int) ^ 63 \<le> sint (9223372036854775807::int64) + 62135596800" by simp
  have d: "''wrong'' \<noteq> ''file123''" by simp
  note thm1 = Validate_of_Sign [where mac = concat_mac and secret = ?k
      and fileID = "''file123''" and exp = 1700000000 and expires = "''+1700000000''"
      and signature = "''00''" and expires' = "''17e8''" and fileID' = "''wrong''"
      and exp' = 42 and now_sec = 1800000000 and now_nsec = 0]
  note thm2 = Validate_of_Sign [where mac = concat_mac and secret = ?k
      and fileID = "''file123''" and exp = 1700000000 and expires = "''+1700000000''"
      and signature = ?sig and expires' = "''42''" and fileID' = "''wrong''"
      and exp' = 42 and now_sec = 1800000000 and now_nsec = 0]
  note thm3 = Validate_of_Sign [where mac = concat_mac and secret = ?k
      and fileID = "''file123''" and exp = 1700000000 and expires = "''+1700000000''"
      and signature = ?sig and expires' = "''42''" and fileID' = "''wrong''"
      and exp' = 42 and now_sec = 1700000000 and now_nsec = 0]
  note thm4 = Validate_of_Sign [where mac = concat_mac and secret = ?k
      and fileID = "''file123''" and exp = 9223372036854775807
      and expires = "''9223372036854775807''"
      and signature = ?big and expires' = "''42''" and fileID' = "''wrong''"
      and exp' = 42 and now_sec = 1800000000 and now_nsec = 0]
  from thm1 p have a1: "Validate concat_mac ?k ''file123'' ''+1700000000'' ?sig" by blast
  from thm1 have a2: "Validate concat_mac ?k ''file123'' (FormatInt 1700000000) ?sig" by blast
  from thm1 p s00 have a3: "\<not> Validate concat_mac ?k ''file123'' ''+1700000000'' ''00''"
    by blast
  from thm1 h3 have a4: "\<not> Validate concat_mac ?k ''wrong'' ''17e8'' ''00''" by blast
  from thm2 p42 c d have a5: "\<not> Validate concat_mac ?k ''wrong'' ''42'' ?sig" by blast
  from thm2 p sne n ad t1
  have a6: "handleDownload_checks concat_mac ?k 1800000000 0 ''GET'' ''file123''
      ''+1700000000'' ?sig = Some 401" by blast
  from thm3 p sne n t2 t2'
  have a7: "handleDownload_checks concat_mac ?k 1700000000 0 ''GET'' ''file123''
      ''+1700000000'' ?sig = None" by blast
  from thm4 pbig bne n ad t3
  have a8: "handleDownload_checks concat_mac ?k 1800000000 0 ''GET'' ''file123''
      ''9223372036854775807'' ?big = Some 401" by blast
  from a1 a2 [unfolded f] a3 a4 a5 a6 a7 a8 show ?thesis by blast
qed

text \<open>
  Claim C8.  \<open>Validate\<close> is total: it is a function of its three strings into
  \<^typ>\<open>bool\<close> in which the error return of \<open>ParseInt\<close> is the branch
  \<open>False\<close>, and none of the functions it calls can fail.  For every expiry
  string that is not a base-10 64-bit integer it returns false; for every
  expiry that parses and whose recomputed signature differs from the given
  one it returns false; in all, it returns true exactly when the expiry
  parses and the signature is the recomputed one.
\<close>

theorem Validate_total:
  "(\<not> parses_as_int64 expires \<longrightarrow> Validate mac secret fileID expires signature = False)
   \<and> (\<forall>exp. ParseInt expires = Inr exp \<and> Sign mac secret fileID exp \<noteq> signature \<longrightarrow>
          Validate mac secret fileID expires signature = False)
   \<and> Validate mac secret fileID expires signature =
       (\<exists>exp. ParseInt expires = Inr exp \<and> signature = Sign mac secret fileID exp)"
proof (intro conjI impI allI)
  assume "\<not> parses_as_int64 expires"
  then have "\<forall>e. ParseInt expires \<noteq> Inr e" using ParseInt_parses by blast
  then show "Validate mac secret fileID expires signature = False"
    by (simp add: Validate_iff)
next
  fix exp
  assume "ParseInt expires = Inr exp \<and> Sign mac secret fileID exp \<noteq> signature"
  then show "Validate mac secret fileID expires signature = False"
    by (auto simp: Validate_iff)
next
  show "Validate mac secret fileID expires signature =
      (\<exists>exp. ParseInt expires = Inr exp \<and> signature = Sign mac secret fileID exp)"
    by (rule Validate_iff)
qed

theorem Validate_total_witness:
  "Validate concat_mac (bytes_of ''k'') ''file123'' ''12a'' ''00'' = False
   \<and> Validate concat_mac (bytes_of ''k'') ''file123'' ''9223372036854775808'' ''00'' = False
   \<and> Validate concat_mac (bytes_of ''k'') ''file123'' ''-5'' ''00'' = False"
proof -
  have h1: "\<not> parses_as_int64 ''12a''"
    by (simp add: parses_as_int64_def is_digit_def)
  have h2: "\<not> parses_as_int64 ''9223372036854775808''"
    by (simp add: parses_as_int64_def is_digit_def decimal_value_def digit_step_def)
  have f: "FormatInt (-5) = ''-5''"
    by (simp add: FormatInt_def formatBits.simps digit_char_def)
  have p: "ParseInt ''-5'' = Inr (-5)"
    by (simp add: ParseInt_def ParseUint_def maxUint64_def Let_def)
  have s: "Sign concat_mac (bytes_of ''k'') ''file123'' (-5) \<noteq> ''00''"
    by (simp only: Sign_def payload_def f) code_simp
  from Validate_total [of "''12a''" concat_mac "bytes_of ''k''" "''file123''" "''00''"] h1
  have "Validate concat_mac (bytes_of ''k'') ''file123'' ''12a'' ''00'' = False" by blast
  moreover
  from Validate_total [of "''9223372036854775808''" concat_mac "bytes_of ''k''" "''file123''" "''00''"] h2
  have "Validate concat_mac (bytes_of ''k'') ''file123'' ''9223372036854775808'' ''00'' = False"
    by blast
  moreover
  from Validate_total [of "''-5''" concat_mac "bytes_of ''k''" "''file123''" "''00''"] p s
  have "Validate concat_mac (bytes_of ''k'') ''file123'' ''-5'' ''00'' = False" by blast
  ultimately show ?thesis by blast
qed

subsection \<open>Claims about the repository\<close>

text \<open>
  Claim C2, as stated: in every state reachable by \<open>Create\<close>,
  \<open>MarkProcessing\<close>, \<open>MarkFailed\<close> and \<open>MarkCompleted\<close>, a document with a
  processedKey and a non-empty content has status \<open>completed\<close>.

  After \<open>Create\<close>, \<open>MarkCompleted\<close> and a \<open>MarkProcessing\<close> for the same id
  (what a redelivered job does first) the row still has its processedKey and
  its content, and its status is \<open>processing\<close>.
\<close>

theorem completed_then_processing_keeps_artifact:
  "repo_run
     [(None, 1, CallCreate \<lparr>ID = ''d1'', FileName = ''a.pdf'', ObjectKey = ''uploads/d1/a.pdf'',
          ProcessedKey = None, Status = [], Content = [], ErrorMessage = None,
          CreatedAt = 0, UpdatedAt = 0\<rparr>),
      (None, 2, CallMarkCompleted ''d1'' ''uploads/d1/a.txt'' ''text''),
      (None, 3, CallMarkProcessing ''d1'')]
     Map.empty ''d1''
   = Some \<lparr>ID = ''d1'', FileName = ''a.pdf'', ObjectKey = ''uploads/d1/a.pdf'',
        ProcessedKey = Some ''uploads/d1/a.txt'', Status = ''processing'', Content = ''text'',
        ErrorMessage = None, CreatedAt = 1, UpdatedAt = 3\<rparr>"
  by (simp add: repo_run_def Create_def MarkCompleted_def MarkProcessing_def updateStatus_def
      StatusQueued_def StatusCompleted_def StatusProcessing_def Let_def)

text \<open>
  Claim C2, amended.  In every state reachable from the empty table by
  \<open>Create\<close>, \<open>MarkProcessing\<close>, \<open>MarkFailed\<close> and \<open>MarkCompleted\<close>, whatever
  faults and clock readings the calls meet, a document whose processedKey is
  set or whose content is non-empty has status \<open>completed\<close>,
  \<open>processing\<close> or \<open>failed\<close>, never \<open>queued\<close>.  A \<open>MarkCompleted\<close> that
  reaches the database leaves an existing document \<open>completed\<close> with the
  given processedKey and content.  \<open>MarkProcessing\<close> and \<open>MarkFailed\<close>,
  whether they reach the database or not, keep the processedKey and the
  content of an existing document as they were (\<open>COALESCE\<close> of a nil
  argument), and when they reach it they set its status to \<open>processing\<close>
  and to \<open>failed\<close>: a document that was completed and is taken up again is
  \<open>processing\<close> or \<open>failed\<close> with its earlier artifact.
\<close>

theorem artifact_implies_not_queued:
  "(repo_run calls Map.empty docID = Some row \<and> (ProcessedKey row \<noteq> None \<or> Content row \<noteq> []) \<longrightarrow>
      (Status row = StatusCompleted \<or> Status row = StatusProcessing \<or> Status row = StatusFailed)
      \<and> Status row \<noteq> StatusQueued)
   \<and> (tbl docID = Some row' \<longrightarrow>
        (\<exists>r. snd (MarkCompleted None now docID processedKey content tbl) docID = Some r
           \<and> Status r = StatusCompleted \<and> ProcessedKey r = Some processedKey
           \<and> Content r = content)
        \<and> (\<exists>r. snd (MarkProcessing exec_err now docID tbl) docID = Some r
           \<and> ProcessedKey r = ProcessedKey row' \<and> Content r = Content row')
        \<and> (\<exists>r. snd (MarkFailed exec_err now docID msg tbl) docID = Some r
           \<and> ProcessedKey r = ProcessedKey row' \<and> Content r = Content row')
        \<and> (\<exists>r. snd (MarkProcessing None now docID tbl) docID = Some r
           \<and> Status r = StatusProcessing)
        \<and> (\<exists>r. snd (MarkFailed None now docID msg tbl) docID = Some r
           \<and> Status r = StatusFailed))"
proof (intro conjI impI)
  assume a: "repo_run calls Map.empty docID = Some row \<and> (ProcessedKey row \<noteq> None \<or> Content row \<noteq> [])"
  have "table_inv (repo_run calls Map.empty)"
    by (rule table_inv_run) (rule table_inv_empty)
  with a have "row_inv docID row" by (simp add: table_inv_def)
  with a show "Status row = StatusCompleted \<or> Status row = StatusProcessing \<or> Status row = StatusFailed"
    by (auto simp: row_inv_def)
  then show "Status row \<noteq> StatusQueued" using status_distinct by auto
next
  assume "tbl docID = Some row'"
  then show "\<exists>r. snd (MarkCompleted None now docID processedKey content tbl) docID = Some r
      \<and> Status r = StatusCompleted \<and> ProcessedKey r = Some processedKey \<and> Content r = content"
    by (simp add: MarkCompleted_def updateStatus_def)
next
  assume "tbl docID = Some row'"
  then show "\<exists>r. snd (MarkProcessing exec_err now docID tbl) docID = Some r
      \<and> ProcessedKey r = ProcessedKey row' \<and> Content r = Content row'"
    by (cases exec_err) (simp_all add: MarkProcessing_def updateStatus_def)
next
  assume "tbl docID = Some row'"
  then show "\<exists>r. snd (MarkFailed exec_err now docID msg tbl) docID = Some r
      \<and> ProcessedKey r = ProcessedKey row' \<and> Content r = Content row'"
    by (cases exec_err) (simp_all add: MarkFailed_def updateStatus_def)
next
  assume "tbl docID = Some row'"
  then show "\<exists>r. snd (MarkProcessing None now docID tbl) docID = Some r \<and> Status r = StatusProcessing"
    by (simp add: MarkProcessing_def updateStatus_def)
next
  assume "tbl docID = Some row'"
  then show "\<exists>r. snd (MarkFailed None now docID msg tbl) docID = Some r \<and> Status r = StatusFailed"
    by (simp add: MarkFailed_def updateStatus_def)
qed

text \<open>
  The theorem on a document that was completed and then marked failed, and
  on the completed row taken up again by \<open>MarkProcessing\<close> and by
  \<open>MarkFailed\<close>.
\<close>

theorem artifact_implies_not_queued_witness:
  "repo_run
     [(None, 1, CallCreate \<lparr>ID = ''d1'', FileName = ''a.pdf'', ObjectKey = ''uploads/d1/a.pdf'',
          ProcessedKey = None, Status = [], Content = [], ErrorMessage = None,
          CreatedAt = 0, UpdatedAt = 0\<rparr>),
      (None, 2, CallMarkCompleted ''d1'' ''uploads/d1/a.txt'' ''text''),
      (None, 3, CallMarkFailed ''d1'' ''boom'')]
     Map.empty ''d1''
   = Some \<lparr>ID = ''d1'', FileName = ''a.pdf'', ObjectKey = ''uploads/d1/a.pdf'',
        ProcessedKey = Some ''uploads/d1/a.txt'', Status = ''failed'', Content = ''text'',
        ErrorMessage = Some ''boom'', CreatedAt = 1, UpdatedAt = 3\<rparr>
   \<and> ''failed'' \<noteq> StatusQueued
   \<and> (\<exists>r. snd (MarkCompleted None 4 ''d1'' ''uploads/d1/b.txt'' ''more''
              [''d1'' \<mapsto> \<lparr>ID = ''d1'', FileName = ''a.pdf'', ObjectKey = ''uploads/d1/a.pdf'',
                 ProcessedKey = Some ''uploads/d1/a.txt'', Status = ''completed'',
                 Content = ''text'', ErrorMessage = None,
                 CreatedAt = 1, UpdatedAt = 2\<rparr>]) ''d1'' = Some r
          \<and> Status r = StatusCompleted \<and> ProcessedKey r = Some ''uploads/d1/b.txt''
          \<and> Content r = ''more'')
   \<and> (\<exists>r. snd (MarkProcessing None 4 ''d1''
              [''d1'' \<mapsto> \<lparr>ID = ''d1'', FileName = ''a.pdf'', ObjectKey = ''uploads/d1/a.pdf'',
                 ProcessedKey = Some ''uploads/d1/a.txt'', Status = ''completed'',
                 Content = ''text'', ErrorMessage = None,
                 CreatedAt = 1, UpdatedAt = 2\<rparr>]) ''d1'' = Some r
          \<and> ProcessedKey r = Some ''uploads/d1/a.txt'' \<and> Content r = ''text'')
   \<and> (\<exists>r. snd (MarkFailed None 4 ''d1'' ''boom''
              [''d1'' \<mapsto> \<lparr>ID = ''d1'', FileName = ''a.pdf'', ObjectKey = ''uploads/d1/a.pdf'',
                 ProcessedKey = Some ''uploads/d1/a.txt'', Status = ''completed'',
                 Content = ''text'', ErrorMessage = None,
                 CreatedAt = 1, UpdatedAt = 2\<rparr>]) ''d1'' = Some r
          \<and> ProcessedKey r = Some ''uploads/d1/a.txt'' \<and> Content r = ''text'')"
proof -
  let ?calls = "[(None, 1, CallCreate \<lparr>ID = ''d1'', FileName = ''a.pdf'', ObjectKey = ''uploads/d1/a.pdf'',
          ProcessedKey = None, Status = [], Content = [], ErrorMessage = None,
          CreatedAt = 0, UpdatedAt = 0\<rparr>),
      (None, 2, CallMarkCompleted ''d1'' ''uploads/d1/a.txt'' ''text''),
      (None, 3, CallMarkFailed ''d1'' ''boom'')]"
  let ?row = "\<lparr>ID = ''d1'', FileName = ''a.pdf'', ObjectKey = ''uploads/d1/a.pdf'',
        ProcessedKey = Some ''uploads/d1/a.txt'', Status = ''failed'', Content = ''text'',
        ErrorMessage = Some ''boom'', CreatedAt = 1, UpdatedAt = 3\<rparr>"
  let ?done = "\<lparr>ID = ''d1'', FileName = ''a.pdf'', ObjectKey = ''uploads/d1/a.pdf'',
                 ProcessedKey = Some ''uploads/d1/a.txt'', Status = ''completed'',
                 Content = ''text'', ErrorMessage = None,
                 CreatedAt = 1, UpdatedAt = (2::int)\<rparr>"
  have run: "repo_run ?calls Map.empty ''d1'' = Some ?row"
    by (simp add: repo_run_def Create_def MarkCompleted_def MarkFailed_def updateStatus_def
        StatusQueued_def StatusCompleted_def StatusFailed_def Let_def)
  have key: "ProcessedKey ?row \<noteq> None \<or> Content ?row \<noteq> []" by simp
  have row: "[''d1'' \<mapsto> ?done] ''d1'' = Some ?done" by simp
  from artifact_implies_not_queued [where calls = ?calls and docID = "''d1''" and row = ?row
      and tbl = "[''d1'' \<mapsto> ?done]" and row' = ?done and now = 4
      and processedKey = "''uploads/d1/b.txt''" and content = "''more''"
      and exec_err = None and msg = "''boom''"]
    run key row
  show ?thesis by auto
qed





end
